theory Spec2Isabelle
  imports Main "HOL-Library.AList"
begin


section \<open>Ticket lifecycle and persistence engine (src/s.js)\<close>

text \<open>
  A shallow embedding of the ticket system of \<^verbatim>\<open>src/s.js\<close>: the role lookup
  (\<^verbatim>\<open>getTicketRoles\<close>, \<^verbatim>\<open>isValidSnowflake\<close>), the persistence file
  (\<^verbatim>\<open>loadActiveTickets\<close>, \<^verbatim>\<open>saveActiveTickets\<close>, \<^verbatim>\<open>processNextSave\<close>),
  the registry \<^verbatim>\<open>activeTickets\<close> with its on-demand load, the button router of
  \<^verbatim>\<open>setupTicketSystem\<close> and the lifecycle handlers.

  JavaScript values are typed as the code uses them. A JS \<^verbatim>\<open>Map\<close> is an association
  list in insertion order (\<^verbatim>\<open>set\<close> is \<open>AList.update\<close>: an existing key keeps its
  place, a new key goes last; \<^verbatim>\<open>delete\<close> is \<open>AList.delete\<close>; \<^verbatim>\<open>get\<close> is
  \<open>map_of\<close>). A field that may be \<^verbatim>\<open>undefined\<close> or \<^verbatim>\<open>null\<close> is an
  \<open>option\<close>, \<open>None\<close> standing for both.
\<close>

subsection \<open>Configuration (config.js is not part of the sources: a parameter)\<close>

text \<open>
  An entry of \<^verbatim>\<open>config.staffRoles\<close> is an array of role identifiers or a single
  one. An identifier is a string; \<open>None\<close> is a \<^verbatim>\<open>null\<close> or \<^verbatim>\<open>undefined\<close>
  entry.
\<close>

type_synonym jsrole = "string option"

datatype roleCfg = RoleArray "jsrole list" | RoleScalar jsrole

record staffRolesCfg =
  hr :: roleCfg
  bookings :: roleCfg
  support :: roleCfg
  partnership :: roleCfg
  founders :: roleCfg

record ticketOptionsCfg =
  maxTicketsPerUser :: "int option"
  maxTicketsPerUserPerType :: "int option"

record config =
  staffRoles :: staffRolesCfg
  ticketOptions :: "ticketOptionsCfg option"

subsection \<open>Role identifiers\<close>

text \<open>JS truthiness of a role entry: \<^verbatim>\<open>null\<close>, \<^verbatim>\<open>undefined\<close> and \<^verbatim>\<open>""\<close> are falsy.\<close>

fun truthy :: "jsrole \<Rightarrow> bool" where
  "truthy None = False"
| "truthy (Some s) = (s \<noteq> [])"

text \<open>
  The body of one \<^verbatim>\<open>case\<close> of \<^verbatim>\<open>getTicketRoles\<close>:
  \<^verbatim>\<open>if (Array.isArray(c)) roles.push(...c); else if (c) roles.push(c);\<close>
\<close>

fun pushRoles :: "roleCfg \<Rightarrow> jsrole list" where
  "pushRoles (RoleArray rs) = rs"
| "pushRoles (RoleScalar r) = (if truthy r then [r] else [])"

text \<open>\<^verbatim>\<open>roles.filter(Boolean)\<close>: the truthy entries, which are non-empty strings.\<close>

fun filterBoolean :: "jsrole list \<Rightarrow> string list" where
  "filterBoolean [] = []"
| "filterBoolean (None # rs) = filterBoolean rs"
| "filterBoolean (Some s # rs) = (if s = [] then filterBoolean rs else s # filterBoolean rs)"

text \<open>
  \<^verbatim>\<open>[...new Set(xs)]\<close>: a JS \<^verbatim>\<open>Set\<close> keeps the first occurrence of each element,
  in insertion order.
\<close>

definition setAdd :: "'a \<Rightarrow> 'a list \<Rightarrow> 'a list" where
  "setAdd x acc = (if x \<in> set acc then acc else acc @ [x])"

definition newSet :: "'a list \<Rightarrow> 'a list" where
  "newSet xs = fold setAdd xs []"

text \<open>
  \<^verbatim>\<open>getTicketRoles(ticketType)\<close> (lines 1466-1513). \<^verbatim>\<open>joinTeam\<close> and \<^verbatim>\<open>hr\<close>
  both read \<^verbatim>\<open>config.staffRoles.hr\<close>; a type outside the switch leaves \<^verbatim>\<open>roles\<close>
  empty.
\<close>

definition rolesOfType :: "config \<Rightarrow> string \<Rightarrow> jsrole list" where
  "rolesOfType cfg ticketType =
     (if ticketType = ''joinTeam'' then pushRoles (hr (staffRoles cfg))
      else if ticketType = ''bookUs'' then pushRoles (bookings (staffRoles cfg))
      else if ticketType = ''support'' then pushRoles (support (staffRoles cfg))
      else if ticketType = ''partnership'' then pushRoles (partnership (staffRoles cfg))
      else if ticketType = ''founders'' then pushRoles (founders (staffRoles cfg))
      else if ticketType = ''hr'' then pushRoles (hr (staffRoles cfg))
      else [])"

definition getTicketRoles :: "config \<Rightarrow> string \<Rightarrow> string list" where
  "getTicketRoles cfg ticketType = newSet (filterBoolean (rolesOfType cfg ticketType))"

text \<open>
  \<^verbatim>\<open>isValidSnowflake(id)\<close> (lines 1455-1463) on a string: non-empty, matching
  \<^verbatim>\<open>/^\d+$/\<close>, and of length 17 to 19.
\<close>

definition isDigit :: "char \<Rightarrow> bool" where
  "isDigit c = (c \<in> set ''0123456789'')"

definition isValidSnowflake :: "string \<Rightarrow> bool" where
  "isValidSnowflake ident =
     (if ident = [] then False
      else if \<not> list_all isDigit ident then False
      else 17 \<le> length ident \<and> length ident \<le> 19)"

subsection \<open>Timestamps and the platform's date functions\<close>

text \<open>
  A JS \<^verbatim>\<open>Date\<close> holds a time value in milliseconds since the epoch, or is an
  Invalid Date. \<^verbatim>\<open>Date.prototype.toISOString\<close> and \<^verbatim>\<open>Date.parse\<close> belong to the
  JavaScript platform, not to the repository: they are parameters of the model.
\<close>

datatype jsdate = DateMs int | InvalidDate

record platform =
  toISOString :: "int \<Rightarrow> string"
  dateParse :: "string \<Rightarrow> int option"

text \<open>\<^verbatim>\<open>new Date(s)\<close> for a string \<open>s\<close>.\<close>

definition newDate :: "platform \<Rightarrow> string \<Rightarrow> jsdate" where
  "newDate P s = (case dateParse P s of Some t \<Rightarrow> DateMs t | None \<Rightarrow> InvalidDate)"

text \<open>
  \<^verbatim>\<open>Date.prototype.toJSON\<close>, which \<^verbatim>\<open>JSON.stringify\<close> calls on a Date: the ISO
  string, or \<^verbatim>\<open>null\<close> for an Invalid Date.
\<close>

fun dateToJSON :: "platform \<Rightarrow> jsdate \<Rightarrow> string option" where
  "dateToJSON P (DateMs t) = Some (toISOString P t)"
| "dateToJSON P InvalidDate = None"

text \<open>The instant a timestamp field denotes, in milliseconds and in whole seconds.\<close>

fun instant :: "jsdate option \<Rightarrow> int option" where
  "instant (Some (DateMs t)) = Some t"
| "instant (Some InvalidDate) = None"
| "instant None = None"

definition seconds :: "jsdate option \<Rightarrow> int option" where
  "seconds d = map_option (\<lambda>t. t div 1000) (instant d)"

subsection \<open>Ticket records\<close>

text \<open>
  The objects stored in \<^verbatim>\<open>activeTickets\<close>. \<open>type'\<close> is the source's field
  \<^verbatim>\<open>type\<close>. \<^verbatim>\<open>formData\<close> is the panel module's extracted form, a string-keyed
  object.
\<close>

type_synonym formdata = "(string \<times> string) list"

record ticket =
  channelId :: string
  userId :: string
  type' :: string
  createdAt :: "jsdate option"
  closed :: "bool option"
  closedAt :: "jsdate option"
  closedBy :: "string option"
  reopenedAt :: "jsdate option"
  reopenedBy :: "string option"
  manuallyRegistered :: "bool option"
  formData :: "formdata option"

type_synonym registry = "(string \<times> ticket) list"

subsection \<open>The persistence file\<close>

text \<open>
  \<^verbatim>\<open>active_tickets.json\<close> holds one JSON object, channel id to record. A record in
  the file has its timestamps as strings; \<^verbatim>\<open>channelId\<close> may be missing. The file is
  absent (\<open>NoFile\<close>), or its text makes the \<^verbatim>\<open>try\<close> block of
  \<^verbatim>\<open>loadActiveTickets\<close> throw (\<open>Unparseable\<close>: not JSON, as a write cut short
  leaves it), or it is such a document.
\<close>

record jticket =
  jchannelId :: "string option"
  juserId :: string
  jtype :: string
  jcreatedAt :: "string option"
  jclosed :: "bool option"
  jclosedAt :: "string option"
  jclosedBy :: "string option"
  jreopenedAt :: "string option"
  jreopenedBy :: "string option"
  jmanuallyRegistered :: "bool option"
  jformData :: "formdata option"

datatype fileContent = NoFile | Unparseable | Doc "(string \<times> jticket) list"

text \<open>
  Both directions pass through a plain object: \<^verbatim>\<open>JSON.parse\<close> builds one from the
  members of the text and \<^verbatim>\<open>Object.entries\<close> lists it, \<^verbatim>\<open>processNextSave\<close>
  copies the map into one and \<^verbatim>\<open>JSON.stringify\<close> lists it. ECMAScript lists the own
  properties of an object with the array indices first, in ascending order, and the
  other keys after them in the order they were created. An array index is the canonical
  decimal string of a number up to 4294967294. \<open>Doc\<close> holds the members of the text
  in the order of the text.
\<close>

definition digitVal :: "char \<Rightarrow> int option" where
  "digitVal c =
     map_of [(CHR ''0'', 0), (CHR ''1'', 1), (CHR ''2'', 2), (CHR ''3'', 3), (CHR ''4'', 4),
             (CHR ''5'', 5), (CHR ''6'', 6), (CHR ''7'', 7), (CHR ''8'', 8), (CHR ''9'', 9)] c"

fun readDigits :: "int \<Rightarrow> string \<Rightarrow> int option" where
  "readDigits acc [] = Some acc"
| "readDigits acc (c # cs) =
     (case digitVal c of None \<Rightarrow> None | Some v \<Rightarrow> readDigits (10 * acc + v) cs)"

definition isArrayIndex :: "string \<Rightarrow> bool" where
  "isArrayIndex k =
     (case readDigits 0 k of
        None \<Rightarrow> False
      | Some n \<Rightarrow> k \<noteq> [] \<and> (k = ''0'' \<or> hd k \<noteq> CHR ''0'') \<and> length k \<le> 10 \<and> n \<le> 4294967294)"

definition arrayIndex :: "string \<Rightarrow> int" where
  "arrayIndex k = (case readDigits 0 k of None \<Rightarrow> 0 | Some n \<Rightarrow> n)"

text \<open>\<^verbatim>\<open>Object.entries(obj)\<close>, for an object given by its properties in creation order.\<close>

definition objectEntries :: "(string \<times> 'a) list \<Rightarrow> (string \<times> 'a) list" where
  "objectEntries obj =
     sort_key (\<lambda>e. arrayIndex (fst e)) (filter (\<lambda>e. isArrayIndex (fst e)) obj)
       @ filter (\<lambda>e. \<not> isArrayIndex (fst e)) obj"

text \<open>
  The object \<^verbatim>\<open>JSON.parse\<close> builds: a member whose name occurred before replaces the
  value and keeps the place.
\<close>

definition jsonParse :: "(string \<times> 'a) list \<Rightarrow> (string \<times> 'a) list" where
  "jsonParse members = fold (\<lambda>e obj. AList.update (fst e) (snd e) obj) members []"

text \<open>
  \<^verbatim>\<open>if (value.createdAt) value.createdAt = new Date(value.createdAt)\<close>: a truthy
  string becomes a Date; a falsy value (absent, \<^verbatim>\<open>null\<close>, \<^verbatim>\<open>""\<close>) stays falsy
  and is \<open>None\<close> in the record.
\<close>

definition reviveDate :: "platform \<Rightarrow> string option \<Rightarrow> jsdate option" where
  "reviveDate P v =
     (case v of None \<Rightarrow> None | Some s \<Rightarrow> if s = [] then None else Some (newDate P s))"

text \<open>The body of the \<^verbatim>\<open>forEach\<close> of \<^verbatim>\<open>loadActiveTickets\<close> (lines 37-43).\<close>

definition reviveTicket :: "platform \<Rightarrow> string \<Rightarrow> jticket \<Rightarrow> ticket" where
  "reviveTicket P key v =
     \<lparr> channelId = (case jchannelId v of None \<Rightarrow> key | Some c \<Rightarrow> if c = [] then key else c),
       userId = juserId v,
       type' = jtype v,
       createdAt = reviveDate P (jcreatedAt v),
       closed = jclosed v,
       closedAt = reviveDate P (jclosedAt v),
       closedBy = jclosedBy v,
       reopenedAt = reviveDate P (jreopenedAt v),
       reopenedBy = jreopenedBy v,
       manuallyRegistered = jmanuallyRegistered v,
       formData = jformData v \<rparr>"

definition loadEntry :: "platform \<Rightarrow> string \<times> jticket \<Rightarrow> registry \<Rightarrow> registry" where
  "loadEntry P e ticketsMap = AList.update (fst e) (reviveTicket P (fst e) (snd e)) ticketsMap"

text \<open>\<^verbatim>\<open>loadActiveTickets()\<close> (lines 31-54), reading the file given.\<close>

fun loadActiveTickets :: "platform \<Rightarrow> fileContent \<Rightarrow> registry" where
  "loadActiveTickets P NoFile = []"
| "loadActiveTickets P Unparseable = []"
| "loadActiveTickets P (Doc members) = fold (loadEntry P) (objectEntries (jsonParse members)) []"

text \<open>
  What \<^verbatim>\<open>JSON.stringify\<close> makes of a record: every Date goes through
  \<^verbatim>\<open>toJSON\<close>, an \<^verbatim>\<open>undefined\<close> field is left out.
\<close>

definition ticketToJSON :: "platform \<Rightarrow> ticket \<Rightarrow> jticket" where
  "ticketToJSON P r =
     \<lparr> jchannelId = Some (channelId r),
       juserId = userId r,
       jtype = type' r,
       jcreatedAt = Option.bind (createdAt r) (dateToJSON P),
       jclosed = closed r,
       jclosedAt = Option.bind (closedAt r) (dateToJSON P),
       jclosedBy = closedBy r,
       jreopenedAt = Option.bind (reopenedAt r) (dateToJSON P),
       jreopenedBy = reopenedBy r,
       jmanuallyRegistered = manuallyRegistered r,
       jformData = formData r \<rparr>"

text \<open>
  The object \<^verbatim>\<open>processNextSave\<close> fills (lines 80-83),
  \<^verbatim>\<open>ticketsObj[key] = value\<close> for every entry of the map. Under the key
  \<^verbatim>\<open>__proto__\<close> the assignment sets the prototype of \<^verbatim>\<open>ticketsObj\<close> and
  creates no property.
\<close>

definition ticketsObj :: "registry \<Rightarrow> registry" where
  "ticketsObj tickets =
     fold (\<lambda>e obj. if fst e = ''__proto__'' then obj else AList.update (fst e) (snd e) obj) tickets []"

text \<open>
  The content \<^verbatim>\<open>processNextSave\<close> writes for a snapshot (line 85):
  \<^verbatim>\<open>JSON.stringify(ticketsObj, null, 2)\<close>.
\<close>

definition serializeTickets :: "platform \<Rightarrow> registry \<Rightarrow> fileContent" where
  "serializeTickets P tickets =
     Doc (map (\<lambda>e. (fst e, ticketToJSON P (snd e))) (objectEntries (ticketsObj tickets)))"

subsection \<open>The save queue\<close>

text \<open>
  \<^verbatim>\<open>saveQueue\<close> and \<^verbatim>\<open>isSaving\<close> are the module's variables. A queued request is
  \<^verbatim>\<open>{ tickets: new Map(tickets), resolve, reject }\<close>: the snapshot, and the number of
  the call that made it, which stands for its promise. Records are never changed in
  place after they are stored, so the copied map is the snapshot.

  The rest of the state is what the code hands to the platform: the writes given to
  \<^verbatim>\<open>fs.promises.writeFile\<close> and not yet completed (a list, so that two at once
  can be told from one), the number of pending \<^verbatim>\<open>setTimeout(processNextSave, 10)\<close>
  timers, and the file. A write takes effect on the file when it completes; one that
  fails leaves the file as it was or cut short. Three history variables record what
  happened: the snapshots requested so far (a request's number is its position), the
  requests whose write was started, in order, and the promises settled, in order, with
  \<open>True\<close> for resolved and \<open>False\<close> for rejected.
\<close>

datatype damage = Untouched | Truncated

datatype outcome = Written | WriteFailed damage

record store =
  saveQueue :: "(nat \<times> registry) list"
  isSaving :: bool
  inflight :: "(nat \<times> fileContent) list"
  timers :: nat
  disk :: fileContent
  requests :: "registry list"
  started :: "nat list"
  settled :: "(nat \<times> bool) list"

definition initStore :: "fileContent \<Rightarrow> store" where
  "initStore d =
     \<lparr> saveQueue = [], isSaving = False, inflight = [], timers = 0, disk = d,
       requests = [], started = [], settled = [] \<rparr>"

text \<open>
  \<^verbatim>\<open>processNextSave()\<close> (lines 70-94) up to its \<^verbatim>\<open>await\<close>: an empty queue
  clears \<^verbatim>\<open>isSaving\<close>; otherwise the head is shifted and its content given to
  \<^verbatim>\<open>writeFile\<close>.
\<close>

definition processNextSave :: "platform \<Rightarrow> store \<Rightarrow> store" where
  "processNextSave P s =
     (case saveQueue s of
        [] \<Rightarrow> s\<lparr>isSaving := False\<rparr>
      | req # rest \<Rightarrow>
          s\<lparr>isSaving := True, saveQueue := rest,
            inflight := inflight s @ [(fst req, serializeTickets P (snd req))],
            started := started s @ [fst req]\<rparr>)"

text \<open>\<^verbatim>\<open>saveActiveTickets(tickets)\<close> (lines 60-68).\<close>

definition saveActiveTickets :: "platform \<Rightarrow> registry \<Rightarrow> store \<Rightarrow> store" where
  "saveActiveTickets P tickets s =
     (let s1 = s\<lparr>saveQueue := saveQueue s @ [(length (requests s), tickets)],
                  requests := requests s @ [tickets]\<rparr>
      in if \<not> isSaving s1 then processNextSave P s1 else s1)"

fun damaged :: "damage \<Rightarrow> fileContent \<Rightarrow> fileContent" where
  "damaged Untouched f = f"
| "damaged Truncated f = Unparseable"

text \<open>
  The rest of \<^verbatim>\<open>processNextSave\<close>, run when the oldest write in flight completes:
  \<^verbatim>\<open>resolve()\<close> after a write that succeeded, \<^verbatim>\<open>reject(error)\<close> in the
  \<^verbatim>\<open>catch\<close> after one that failed, and in both cases the \<^verbatim>\<open>finally\<close> sets the
  timer.
\<close>

definition writeCompletes :: "outcome \<Rightarrow> store \<Rightarrow> store" where
  "writeCompletes out s =
     (case inflight s of
        [] \<Rightarrow> s
      | w # rest \<Rightarrow>
          (case out of
             Written \<Rightarrow>
               s\<lparr>inflight := rest, disk := snd w, settled := settled s @ [(fst w, True)],
                 timers := Suc (timers s)\<rparr>
           | WriteFailed d \<Rightarrow>
               s\<lparr>inflight := rest, disk := damaged d (disk s),
                 settled := settled s @ [(fst w, False)], timers := Suc (timers s)\<rparr>))"

text \<open>A pending timer fires and calls \<^verbatim>\<open>processNextSave\<close>.\<close>

definition timerFires :: "platform \<Rightarrow> store \<Rightarrow> store" where
  "timerFires P s =
     (if timers s = 0 then s else processNextSave P (s\<lparr>timers := timers s - 1\<rparr>))"

datatype storeEvent = Save registry | WriteCompletes outcome | TimerFires

fun storeStep :: "platform \<Rightarrow> store \<Rightarrow> storeEvent \<Rightarrow> store" where
  "storeStep P s (Save tickets) = saveActiveTickets P tickets s"
| "storeStep P s (WriteCompletes out) = writeCompletes out s"
| "storeStep P s TimerFires = timerFires P s"

definition storeRun :: "platform \<Rightarrow> fileContent \<Rightarrow> storeEvent list \<Rightarrow> store" where
  "storeRun P d es = foldl (storeStep P) (initStore d) es"

text \<open>Every request has been settled: nothing is queued and nothing is being written.\<close>

definition allSettled :: "store \<Rightarrow> bool" where
  "allSettled s = (saveQueue s = [] \<and> inflight s = [] \<and> length (settled s) = length (requests s))"

text \<open>The promise of request \<open>n\<close> was resolved (not rejected).\<close>

definition resolved :: "store \<Rightarrow> nat \<Rightarrow> bool" where
  "resolved s n = ((n, True) \<in> set (settled s))"

subsection \<open>The registry, the interactions and the quota\<close>

text \<open>
  The module's state: \<^verbatim>\<open>activeTickets\<close>, \<^verbatim>\<open>ticketsLoaded\<close>, the save queue with
  the file behind it, and on the platform's side the \<^verbatim>\<open>SendMessages\<close> permission
  overwrites the handlers edit, keyed by channel and by user or role.
\<close>

record world =
  activeTickets :: registry
  ticketsLoaded :: bool
  store :: store
  sendMessages :: "((string \<times> string) \<times> bool) list"

text \<open>
  What a handler reads from its \<^verbatim>\<open>interaction\<close>: the channel, the user, the
  member's administrator permission and roles, the guild's role cache. What the
  platform answers while the handler runs is part of it too: the time \<^verbatim>\<open>new Date()\<close>
  reads, the platform calls that reject, and the id of the channel that
  \<^verbatim>\<open>guild.channels.create\<close> returns. \<open>SaveTickets\<close> among the rejected calls
  is the promise of \<^verbatim>\<open>await saveActiveTickets(activeTickets)\<close> being rejected: the
  handler goes on when the write has completed, and which way it completed is an
  answer of the platform like the others.
\<close>

datatype api =
    DeferReply | DeferUpdate | PermissionsEdit | ChannelSend | ChannelsCreate | GenerateTranscript
  | SaveTickets

record interaction =
  channel :: string
  user :: string
  administrator :: bool
  memberRoles :: "string list"
  guildRoles :: "string list"
  now :: int
  rejects :: "api list"
  newChannel :: string

definition succeeds :: "interaction \<Rightarrow> api \<Rightarrow> bool" where
  "succeeds i a = (\<not> a \<in> set (rejects i))"

text \<open>
  What a handler tells the caller. \<open>ErrorLogged\<close> is an exception caught by the
  handler's own \<^verbatim>\<open>catch\<close>, where \<^verbatim>\<open>channel\<close> is out of scope (it is declared
  inside the \<^verbatim>\<open>try\<close>), so the message to the channel fails too and the error only
  reaches the console. The reply of a lifecycle handler is the notice it has sent
  before it saves; the creation and registration functions reply after their save and
  the messages that follow it.
\<close>

datatype reply =
    NotATicket
  | StaffOnly
  | AdminOnly
  | LimitTotal int
  | LimitPerType int string
  | ConfirmPrompt
  | ClosureCancelled
  | TicketClosed
  | TicketReopened
  | TicketDeleted
  | TicketCreated string
  | TicketRegistered string
  | InvalidTicketType
  | AlreadyRegistered
  | TranscriptCreated
  | ModalShown
  | EventReply
  | ErrorLogged
  | ErrorReported
  | NoReply

text \<open>\<^verbatim>\<open>ensureTicketsLoaded()\<close> (lines 191-201): the registry is cleared and refilled
  from the file once.\<close>

definition ensureTicketsLoaded :: "platform \<Rightarrow> world \<Rightarrow> world" where
  "ensureTicketsLoaded P w =
     (if \<not> ticketsLoaded w
      then w\<lparr>activeTickets := loadActiveTickets P (disk (store w)), ticketsLoaded := True\<rparr>
      else w)"

text \<open>\<^verbatim>\<open>saveActiveTickets(activeTickets)\<close> as the handlers call it.\<close>

definition saveRegistry :: "platform \<Rightarrow> world \<Rightarrow> world" where
  "saveRegistry P w = w\<lparr>store := saveActiveTickets P (activeTickets w) (store w)\<rparr>"

text \<open>
  The staff check of the router (lines 320-323): administrator, or a member of one of
  \<^verbatim>\<open>getTicketRoles(ticketData.type)\<close>.
\<close>

definition isStaff :: "config \<Rightarrow> interaction \<Rightarrow> ticket \<Rightarrow> bool" where
  "isStaff cfg i ticketData =
     (administrator i \<or> list_ex (\<lambda>roleId. roleId \<in> set (memberRoles i)) (getTicketRoles cfg (type' ticketData)))"

text \<open>
  The quota block, the same text in \<^verbatim>\<open>createTicketWithFormData\<close> (lines 715-741)
  and \<^verbatim>\<open>createTicket\<close> (lines 901-927). \<^verbatim>\<open>!ticket.closed\<close> holds of a record
  without the field and of one where it is \<^verbatim>\<open>false\<close>.
\<close>

definition maxTotal :: "config \<Rightarrow> int" where
  "maxTotal cfg =
     (case ticketOptions cfg of None \<Rightarrow> 10
      | Some opts \<Rightarrow> (case maxTicketsPerUser opts of None \<Rightarrow> 10 | Some n \<Rightarrow> n))"

definition maxPerType :: "config \<Rightarrow> int" where
  "maxPerType cfg =
     (case ticketOptions cfg of None \<Rightarrow> 3
      | Some opts \<Rightarrow> (case maxTicketsPerUserPerType opts of None \<Rightarrow> 3 | Some n \<Rightarrow> n))"

definition userTickets :: "registry \<Rightarrow> string \<Rightarrow> ticket list" where
  "userTickets reg uid = filter (\<lambda>t. userId t = uid \<and> closed t \<noteq> Some True) (map snd reg)"

definition userTicketsOfType :: "registry \<Rightarrow> string \<Rightarrow> string \<Rightarrow> ticket list" where
  "userTicketsOfType reg uid ticketType = filter (\<lambda>t. type' t = ticketType) (userTickets reg uid)"

definition quotaDenial :: "config \<Rightarrow> registry \<Rightarrow> string \<Rightarrow> string \<Rightarrow> reply option" where
  "quotaDenial cfg reg uid ticketType =
     (if int (length (userTickets reg uid)) \<ge> maxTotal cfg then Some (LimitTotal (maxTotal cfg))
      else if int (length (userTicketsOfType reg uid ticketType)) \<ge> maxPerType cfg
        then Some (LimitPerType (maxPerType cfg) ticketType)
      else None)"

subsection \<open>Creating and registering tickets\<close>

text \<open>
  The \<^verbatim>\<open>SendMessages\<close> part of the new channel's \<^verbatim>\<open>permissionOverwrites\<close>: allowed
  for the requester and for each visible role found in the guild's cache.
\<close>

definition grantSend :: "string \<Rightarrow> string list \<Rightarrow> ((string \<times> string) \<times> bool) list
    \<Rightarrow> ((string \<times> string) \<times> bool) list" where
  "grantSend ch ids perms = fold (\<lambda>ident. AList.update (ch, ident) True) ids perms"

definition visibleRoles :: "config \<Rightarrow> interaction \<Rightarrow> string \<Rightarrow> string list" where
  "visibleRoles cfg i ticketType =
     filter (\<lambda>roleId. roleId \<in> set (guildRoles i)) (filter isValidSnowflake (getTicketRoles cfg ticketType))"

text \<open>
  The part the two creation functions share after the quota block, all of it inside
  one \<^verbatim>\<open>try\<close>: the channel is created with its overwrites, the record is stored
  with \<^verbatim>\<open>activeTickets.set(ticketChannel.id, ...)\<close>, the save is requested and
  awaited, the welcome message is sent to the new channel, and the user is told the
  ticket has been created. When the creation of the channel, the save or the message
  is rejected, the \<^verbatim>\<open>catch\<close> answers with the error message; the record stays
  where it was put. The record passed in is the object literal of the caller, whose
  \<^verbatim>\<open>channelId\<close> is \<^verbatim>\<open>ticketChannel.id\<close>.
\<close>

definition openChannel :: "config \<Rightarrow> platform \<Rightarrow> world \<Rightarrow> interaction \<Rightarrow> ticket \<Rightarrow> reply \<times> world" where
  "openChannel cfg P w i ticketData =
     (if \<not> succeeds i ChannelsCreate then (ErrorReported, w)
      else
        let ch = newChannel i;
            w2 = w\<lparr>sendMessages :=
                     grantSend ch (user i # visibleRoles cfg i (type' ticketData)) (sendMessages w),
                   activeTickets := AList.update ch ticketData (activeTickets w)\<rparr>;
            w3 = saveRegistry P w2
        in if \<not> succeeds i SaveTickets \<or> \<not> succeeds i ChannelSend then (ErrorReported, w3)
           else (TicketCreated ch, w3))"

definition freshTicket :: "interaction \<Rightarrow> string \<Rightarrow> ticket" where
  "freshTicket i ticketType =
     \<lparr> channelId = newChannel i, userId = user i, type' = ticketType,
       createdAt = Some (DateMs (now i)), closed = None, closedAt = None, closedBy = None,
       reopenedAt = None, reopenedBy = None, manuallyRegistered = None, formData = None \<rparr>"

text \<open>\<^verbatim>\<open>createTicketWithFormData\<close> (lines 710-886).\<close>

definition createTicketWithFormData ::
    "config \<Rightarrow> platform \<Rightarrow> world \<Rightarrow> interaction \<Rightarrow> string \<Rightarrow> formdata \<Rightarrow> reply \<times> world" where
  "createTicketWithFormData cfg P w i ticketType fd =
     (let w1 = ensureTicketsLoaded P w in
      case quotaDenial cfg (activeTickets w1) (user i) ticketType of
        Some denial \<Rightarrow> (denial, w1)
      | None \<Rightarrow> openChannel cfg P w1 i ((freshTicket i ticketType)\<lparr>formData := Some fd\<rparr>))"

text \<open>\<^verbatim>\<open>createTicket\<close> (lines 889-1040): it returns at once when the reply cannot be
  deferred.\<close>

definition createTicket :: "config \<Rightarrow> platform \<Rightarrow> world \<Rightarrow> interaction \<Rightarrow> string \<Rightarrow> reply \<times> world" where
  "createTicket cfg P w i ticketType =
     (if \<not> succeeds i DeferReply then (NoReply, w)
      else
        let w1 = ensureTicketsLoaded P w in
        case quotaDenial cfg (activeTickets w1) (user i) ticketType of
          Some denial \<Rightarrow> (denial, w1)
        | None \<Rightarrow> openChannel cfg P w1 i (freshTicket i ticketType))"

text \<open>The options of the \<^verbatim>\<open>/register-ticket\<close> command.\<close>

record registerOptions =
  optChannel :: "string option"
  optUser :: "string option"
  optType :: "string option"

definition validTypes :: "string list" where
  "validTypes = [''support'', ''joinTeam'', ''bookUs'', ''partnership'', ''founders'', ''hr'']"

text \<open>
  \<^verbatim>\<open>registerExistingTicket\<close> (lines 546-625). A missing user option makes
  \<^verbatim>\<open>targetUser.id\<close> throw inside the \<^verbatim>\<open>try\<close>, after the two checks. The
  save and the message to the channel are awaited before the reply.
\<close>

definition registerExistingTicket ::
    "platform \<Rightarrow> world \<Rightarrow> interaction \<Rightarrow> registerOptions \<Rightarrow> reply \<times> world" where
  "registerExistingTicket P w i opts =
     (if \<not> administrator i then (AdminOnly, w)
      else if \<not> succeeds i DeferReply then (NoReply, w)
      else
        let w1 = ensureTicketsLoaded P w;
            ch = (case optChannel opts of Some c \<Rightarrow> c | None \<Rightarrow> channel i)
        in
          case optType opts of
            None \<Rightarrow> (InvalidTicketType, w1)
          | Some ticketType \<Rightarrow>
              if ticketType \<notin> set validTypes then (InvalidTicketType, w1)
              else if map_of (activeTickets w1) ch \<noteq> None then (AlreadyRegistered, w1)
              else
                (case optUser opts of
                   None \<Rightarrow> (ErrorReported, w1)
                 | Some targetUser \<Rightarrow>
                     let ticketData =
                           \<lparr> channelId = ch, userId = targetUser, type' = ticketType,
                             createdAt = Some (DateMs (now i)), closed = None, closedAt = None,
                             closedBy = None, reopenedAt = None, reopenedBy = None,
                             manuallyRegistered = Some True, formData = None \<rparr>;
                         w2 = w1\<lparr>activeTickets := AList.update ch ticketData (activeTickets w1)\<rparr>;
                         w3 = saveRegistry P w2
                     in if \<not> succeeds i SaveTickets \<or> \<not> succeeds i ChannelSend
                        then (ErrorReported, w3)
                        else (TicketRegistered ch, w3)))"

subsection \<open>The lifecycle handlers\<close>

text \<open>\<^verbatim>\<open>closeTicket\<close> (lines 1043-1095): the confirmation prompt, no change.\<close>

definition closeTicket :: "platform \<Rightarrow> world \<Rightarrow> interaction \<Rightarrow> reply \<times> world" where
  "closeTicket P w i =
     (let w1 = ensureTicketsLoaded P w in
      if map_of (activeTickets w1) (channel i) = None then (NotATicket, w1)
      else (ConfirmPrompt, w1))"

text \<open>
  \<^verbatim>\<open>closeTicketConfirmed\<close> (lines 1098-1178). It has no check that the channel is
  a ticket: without a record, \<^verbatim>\<open>activeTickets.get(channel.id).userId\<close> throws. A
  failing \<^verbatim>\<open>deferUpdate\<close> is ignored. The permission edit comes before the message
  to the channel, and the record changes only after both.
\<close>

definition closeTicketConfirmed :: "platform \<Rightarrow> world \<Rightarrow> interaction \<Rightarrow> reply \<times> world" where
  "closeTicketConfirmed P w i =
     (let w1 = ensureTicketsLoaded P w in
      case map_of (activeTickets w1) (channel i) of
        None \<Rightarrow> (ErrorLogged, w1)
      | Some ticketData \<Rightarrow>
          if \<not> succeeds i PermissionsEdit then (ErrorLogged, w1)
          else
            let w2 = w1\<lparr>sendMessages :=
                          AList.update (channel i, userId ticketData) False (sendMessages w1)\<rparr>
            in
              if \<not> succeeds i ChannelSend then (ErrorLogged, w2)
              else
                let updatedTicketData =
                      ticketData\<lparr>closed := Some True, closedAt := Some (DateMs (now i)),
                                 closedBy := Some (user i)\<rparr>;
                    w3 = w2\<lparr>activeTickets :=
                              AList.update (channel i) updatedTicketData (activeTickets w2)\<rparr>
                in (TicketClosed, saveRegistry P w3))"

text \<open>\<^verbatim>\<open>closeTicketCancelled\<close> (lines 1181-1191): the prompt is replaced, nothing else.\<close>

definition closeTicketCancelled :: "world \<Rightarrow> interaction \<Rightarrow> reply \<times> world" where
  "closeTicketCancelled w i = (ClosureCancelled, w)"

text \<open>\<^verbatim>\<open>reopenTicket\<close> (lines 1194-1267).\<close>

definition reopenTicket :: "platform \<Rightarrow> world \<Rightarrow> interaction \<Rightarrow> reply \<times> world" where
  "reopenTicket P w i =
     (let w1 = ensureTicketsLoaded P w in
      case map_of (activeTickets w1) (channel i) of
        None \<Rightarrow> (NotATicket, w1)
      | Some ticketData \<Rightarrow>
          if \<not> succeeds i PermissionsEdit then (ErrorLogged, w1)
          else
            let w2 = w1\<lparr>sendMessages :=
                          AList.update (channel i, userId ticketData) True (sendMessages w1)\<rparr>
            in
              if \<not> succeeds i ChannelSend then (ErrorLogged, w2)
              else
                let updatedTicketData =
                      ticketData\<lparr>closed := Some False, reopenedAt := Some (DateMs (now i)),
                                 reopenedBy := Some (user i)\<rparr>;
                    w3 = w2\<lparr>activeTickets :=
                              AList.update (channel i) updatedTicketData (activeTickets w2)\<rparr>
                in (TicketReopened, saveRegistry P w3))"

text \<open>
  \<^verbatim>\<open>deleteTicket\<close> (lines 1270-1326): a transcript that fails changes the message
  only; the record is removed and the save requested either way.
\<close>

definition deleteTicket :: "platform \<Rightarrow> world \<Rightarrow> interaction \<Rightarrow> reply \<times> world" where
  "deleteTicket P w i =
     (let w1 = ensureTicketsLoaded P w in
      case map_of (activeTickets w1) (channel i) of
        None \<Rightarrow> (NotATicket, w1)
      | Some ticketData \<Rightarrow>
          let w2 = w1\<lparr>activeTickets := AList.delete (channel i) (activeTickets w1)\<rparr>
          in (TicketDeleted, saveRegistry P w2))"

text \<open>\<^verbatim>\<open>createTranscript\<close> (lines 1369-1452): no change to the state.\<close>

definition createTranscript :: "platform \<Rightarrow> world \<Rightarrow> interaction \<Rightarrow> reply \<times> world" where
  "createTranscript P w i =
     (let w1 = ensureTicketsLoaded P w in
      if map_of (activeTickets w1) (channel i) = None then (NotATicket, w1)
      else if \<not> succeeds i GenerateTranscript \<or> \<not> succeeds i ChannelSend then (ErrorLogged, w1)
      else (TranscriptCreated, w1))"

subsection \<open>The router\<close>

text \<open>
  The buttons the handler of \<^verbatim>\<open>InteractionCreate\<close> tells apart by \<^verbatim>\<open>customId\<close>
  (lines 288-445): a panel button, the four ticket management buttons, the two buttons
  of the confirmation prompt, \<^verbatim>\<open>ticket_create_<type>\<close>, and the two event buttons.
\<close>

datatype button =
    PanelButton
  | TicketClose | TicketDelete | TicketReopen | TicketTranscript
  | TicketCloseConfirm | TicketCloseCancel
  | TicketCreate string
  | EventAccept | EventDecline

text \<open>
  The management branch (lines 298-338): the record is looked up first, the staff
  check covers close, delete and reopen, then the handler runs.
\<close>

definition managementButton ::
    "config \<Rightarrow> platform \<Rightarrow> world \<Rightarrow> button \<Rightarrow> interaction \<Rightarrow> reply \<times> world" where
  "managementButton cfg P w b i =
     (let w1 = ensureTicketsLoaded P w in
      case map_of (activeTickets w1) (channel i) of
        None \<Rightarrow> (NotATicket, w1)
      | Some ticketData \<Rightarrow>
          if (b = TicketClose \<or> b = TicketDelete \<or> b = TicketReopen) \<and> \<not> isStaff cfg i ticketData
          then (StaffOnly, w1)
          else if b = TicketClose then closeTicket P w1 i
          else if b = TicketDelete then deleteTicket P w1 i
          else if b = TicketReopen then reopenTicket P w1 i
          else if b = TicketTranscript then createTranscript P w1 i
          else (NoReply, w1))"

fun onButton :: "config \<Rightarrow> platform \<Rightarrow> world \<Rightarrow> button \<Rightarrow> interaction \<Rightarrow> reply \<times> world" where
  "onButton cfg P w PanelButton i = (ModalShown, w)"
| "onButton cfg P w TicketCloseConfirm i = closeTicketConfirmed P w i"
| "onButton cfg P w TicketCloseCancel i = closeTicketCancelled w i"
| "onButton cfg P w (TicketCreate ticketType) i = createTicket cfg P w i ticketType"
| "onButton cfg P w EventAccept i = (EventReply, ensureTicketsLoaded P w)"
| "onButton cfg P w EventDecline i = (EventReply, ensureTicketsLoaded P w)"
| "onButton cfg P w b i = managementButton cfg P w b i"

text \<open>
  A modal submission of a panel (lines 518-536): the reply is deferred inside the
  \<^verbatim>\<open>try\<close>, then \<^verbatim>\<open>createTicketWithFormData\<close> runs with the panel's ticket type and
  the data it extracted.
\<close>

definition onModalSubmit ::
    "config \<Rightarrow> platform \<Rightarrow> world \<Rightarrow> interaction \<Rightarrow> string \<Rightarrow> formdata \<Rightarrow> reply \<times> world" where
  "onModalSubmit cfg P w i ticketType fd =
     (if \<not> succeeds i DeferReply then (ErrorReported, w)
      else createTicketWithFormData cfg P w i ticketType fd)"

text \<open>
  The \<^verbatim>\<open>ready\<close> handler (lines 208-223): records whose channel is not in the
  client's cache are removed, and the registry is saved.
\<close>

definition onReady :: "platform \<Rightarrow> world \<Rightarrow> string list \<Rightarrow> world" where
  "onReady P w live =
     saveRegistry P (w\<lparr>activeTickets := filter (\<lambda>e. fst e \<in> set live) (activeTickets w)\<rparr>)"

text \<open>
  The module's initialisation (lines 57-58, 96, 189):
  \<^verbatim>\<open>activeTickets = loadActiveTickets()\<close>, an empty queue, nothing loaded on demand
  yet.
\<close>

definition boot :: "platform \<Rightarrow> fileContent \<Rightarrow> ((string \<times> string) \<times> bool) list \<Rightarrow> world" where
  "boot P d perms =
     \<lparr> activeTickets = loadActiveTickets P d, ticketsLoaded = False, store = initStore d,
       sendMessages = perms \<rparr>"

text \<open>
  Everything that can happen to the module. Handlers run one at a time, each to its
  save: an interleaving of two handlers at an \<^verbatim>\<open>await\<close> is not part of the model.
  \<open>Restart\<close> is the process starting again on the file as it is.
\<close>

datatype event =
    Button button interaction
  | ModalSubmit interaction string formdata
  | RegisterTicket interaction registerOptions
  | DeclineReasonSelect interaction
  | Ready "string list"
  | WriteDone outcome
  | TimerDue
  | Restart

fun step :: "config \<Rightarrow> platform \<Rightarrow> world \<Rightarrow> event \<Rightarrow> world" where
  "step cfg P w (Button b i) = snd (onButton cfg P w b i)"
| "step cfg P w (ModalSubmit i ticketType fd) = snd (onModalSubmit cfg P w i ticketType fd)"
| "step cfg P w (RegisterTicket i opts) = snd (registerExistingTicket P w i opts)"
| "step cfg P w (DeclineReasonSelect i) = ensureTicketsLoaded P w"
| "step cfg P w (Ready live) = onReady P w live"
| "step cfg P w (WriteDone out) = w\<lparr>store := writeCompletes out (store w)\<rparr>"
| "step cfg P w TimerDue = w\<lparr>store := timerFires P (store w)\<rparr>"
| "step cfg P w Restart = boot P (disk (store w)) (sendMessages w)"

definition run :: "config \<Rightarrow> platform \<Rightarrow> world \<Rightarrow> event list \<Rightarrow> world" where
  "run cfg P w es = foldl (step cfg P) w es"

subsection \<open>An instance of the platform\<close>

text \<open>
  The theorems below hold for every platform. To evaluate the model on concrete
  inputs, here is one: \<^verbatim>\<open>toISOString\<close> as ECMAScript defines it
  (\<^verbatim>\<open>YYYY-MM-DDTHH:mm:ss.sssZ\<close>, the year with a sign and six digits outside
  0..9999), and \<^verbatim>\<open>Date.parse\<close> on exactly that format. The calendar arithmetic is
  the usual one on the days since the epoch, in eras of 400 years.
\<close>

definition digitChar :: "int \<Rightarrow> char" where
  "digitChar n = ''0123456789'' ! nat (n mod 10)"

definition pad2 :: "int \<Rightarrow> string" where
  "pad2 n = [digitChar (n div 10), digitChar n]"

definition pad3 :: "int \<Rightarrow> string" where
  "pad3 n = digitChar (n div 100) # pad2 n"

definition pad4 :: "int \<Rightarrow> string" where
  "pad4 n = pad2 (n div 100) @ pad2 n"

definition pad6 :: "int \<Rightarrow> string" where
  "pad6 n = pad2 (n div 10000) @ pad4 n"

text \<open>
  From the day number to year, month and day, one quantity at a time. An era has
  146097 days and starts on a first of March; \<open>daysBeforeYear\<close> counts the days of
  an era before its year \<open>yoe\<close>, and \<open>yearOfEra\<close> finds the year of a day of the
  era.
\<close>

definition daysBeforeYear :: "int \<Rightarrow> int" where
  "daysBeforeYear yoe = 365 * yoe + yoe div 4 - yoe div 100"

definition yearOfEra :: "int \<Rightarrow> int" where
  "yearOfEra doe = (doe - doe div 1460 + doe div 36524 - doe div 146096) div 365"

definition civilOfMonth :: "int \<Rightarrow> int \<Rightarrow> int \<Rightarrow> int \<times> int \<times> int" where
  "civilOfMonth y doy mp =
     (if mp < 10 then (y, mp + 3, doy - (153 * mp + 2) div 5 + 1)
      else (y + 1, mp - 9, doy - (153 * mp + 2) div 5 + 1))"

definition civilOfDayOfYear :: "int \<Rightarrow> int \<Rightarrow> int \<times> int \<times> int" where
  "civilOfDayOfYear y doy = civilOfMonth y doy ((5 * doy + 2) div 153)"

definition civilOfYearOfEra :: "int \<Rightarrow> int \<Rightarrow> int \<Rightarrow> int \<times> int \<times> int" where
  "civilOfYearOfEra era doe yoe = civilOfDayOfYear (yoe + era * 400) (doe - daysBeforeYear yoe)"

definition civilOfDayOfEra :: "int \<Rightarrow> int \<Rightarrow> int \<times> int \<times> int" where
  "civilOfDayOfEra era doe = civilOfYearOfEra era doe (yearOfEra doe)"

definition civilFromDays :: "int \<Rightarrow> int \<times> int \<times> int" where
  "civilFromDays z = civilOfDayOfEra ((z + 719468) div 146097) ((z + 719468) mod 146097)"

definition daysOfEra :: "int \<Rightarrow> int \<Rightarrow> int \<Rightarrow> int" where
  "daysOfEra era yoe doy = era * 146097 + (daysBeforeYear yoe + doy) - 719468"

definition daysFromCivil :: "int \<Rightarrow> int \<Rightarrow> int \<Rightarrow> int" where
  "daysFromCivil y m d =
     (if m \<le> 2 then daysOfEra ((y - 1) div 400) ((y - 1) mod 400) ((153 * (m + 9) + 2) div 5 + d - 1)
      else daysOfEra (y div 400) (y mod 400) ((153 * (m - 3) + 2) div 5 + d - 1))"

definition isoYear :: "int \<Rightarrow> string" where
  "isoYear y =
     (if 0 \<le> y \<and> y \<le> 9999 then pad4 y
      else if y < 0 then CHR ''-'' # pad6 (- y)
      else CHR ''+'' # pad6 y)"

definition isoDate :: "int \<times> int \<times> int \<Rightarrow> string" where
  "isoDate ymd = isoYear (fst ymd) @ ''-'' @ pad2 (fst (snd ymd)) @ ''-'' @ pad2 (snd (snd ymd))"

definition isoTime :: "int \<Rightarrow> string" where
  "isoTime ms =
     pad2 (ms div 3600000) @ '':'' @ pad2 (ms div 60000 mod 60) @ '':''
       @ pad2 (ms div 1000 mod 60) @ ''.'' @ pad3 (ms mod 1000)"

definition isoString :: "int \<Rightarrow> string" where
  "isoString t =
     isoDate (civilFromDays (t div 86400000)) @ ''T'' @ isoTime (t mod 86400000) @ ''Z''"

text \<open>The time value of the fields read, when they name a time of day and a day that exists.\<close>

definition makeTime :: "int \<Rightarrow> int \<Rightarrow> int \<Rightarrow> int \<Rightarrow> int \<Rightarrow> int \<Rightarrow> int \<Rightarrow> int option" where
  "makeTime y mo d h mi sec ms =
     (if 1 \<le> mo \<and> mo \<le> 12 \<and> 1 \<le> d \<and> h \<le> 23 \<and> mi \<le> 59 \<and> sec \<le> 59
         \<and> civilFromDays (daysFromCivil y mo d) = (y, mo, d)
      then Some (daysFromCivil y mo d * 86400000 + (h * 3600000 + mi * 60000 + sec * 1000 + ms))
      else None)"

definition field :: "string \<Rightarrow> nat \<Rightarrow> nat \<Rightarrow> int option" where
  "field s start len = readDigits 0 (take len (drop start s))"

text \<open>The string after the year: \<^verbatim>\<open>-MM-DDTHH:mm:ss.sssZ\<close>.\<close>

definition parseRest :: "int \<Rightarrow> string \<Rightarrow> int option" where
  "parseRest y s =
     (if length s = 20 \<and> [s ! 0, s ! 3, s ! 6, s ! 9, s ! 12, s ! 15, s ! 19] = ''--T::.Z'' then
        (case field s 1 2 of None \<Rightarrow> None | Some mo \<Rightarrow>
          (case field s 4 2 of None \<Rightarrow> None | Some d \<Rightarrow>
            (case field s 7 2 of None \<Rightarrow> None | Some h \<Rightarrow>
              (case field s 10 2 of None \<Rightarrow> None | Some mi \<Rightarrow>
                (case field s 13 2 of None \<Rightarrow> None | Some sec \<Rightarrow>
                  (case field s 16 3 of None \<Rightarrow> None | Some ms \<Rightarrow>
                    makeTime y mo d h mi sec ms))))))
      else None)"

definition isoParse :: "string \<Rightarrow> int option" where
  "isoParse s =
     (if s = [] then None
      else if hd s = CHR ''+'' \<or> hd s = CHR ''-'' then
        (case field s 1 6 of
           None \<Rightarrow> None
         | Some y \<Rightarrow>
             if length s < 7 \<or> (hd s = CHR ''-'' \<and> y = 0) then None
             else parseRest (if hd s = CHR ''-'' then - y else y) (drop 7 s))
      else
        (case field s 0 4 of
           None \<Rightarrow> None
         | Some y \<Rightarrow> if length s < 4 then None else parseRest y (drop 4 s)))"

definition isoPlatform :: platform where
  "isoPlatform = \<lparr> toISOString = isoString, dateParse = isoParse \<rparr>"

text \<open>
  \<open>yearOfEra\<close> is right on the first and on the last day of the year \<open>y\<close> of
  an era.
\<close>

definition yearFits :: "int \<Rightarrow> bool" where
  "yearFits y = (yearOfEra (daysBeforeYear y) = y \<and> yearOfEra (daysBeforeYear (y + 1) - 1) = y)"

section \<open>Predicates of the statements\<close>

subsection \<open>The invariant of the save queue\<close>

text \<open>
  While \<^verbatim>\<open>isSaving\<close> is set, exactly one thing is pending: a write in flight, or the
  timer that calls \<^verbatim>\<open>processNextSave\<close> again. While it is clear, nothing is pending
  and the queue is empty.
\<close>

definition invFlight :: "store \<Rightarrow> bool" where
  "invFlight s =
     (length (inflight s) + timers s = (if isSaving s then 1 else 0)
      \<and> (\<not> isSaving s \<longrightarrow> saveQueue s = []))"

text \<open>
  Requests are started in the order of their numbers and settled in the order they
  were started.
\<close>

definition invOrder :: "store \<Rightarrow> bool" where
  "invOrder s =
     (map fst (settled s) @ map fst (inflight s) = started s
      \<and> started s @ map fst (saveQueue s) = [0..<length (requests s)])"

text \<open>
  A queued request holds the snapshot of its call, a write in flight carries the
  serialization of its request's snapshot, and after a write that succeeded last the
  file holds that serialization.
\<close>

definition holds :: "registry list \<Rightarrow> nat \<times> registry \<Rightarrow> bool" where
  "holds rs q = (fst q < length rs \<and> snd q = rs ! fst q)"

definition carries :: "platform \<Rightarrow> registry list \<Rightarrow> nat \<times> fileContent \<Rightarrow> bool" where
  "carries P rs w = (fst w < length rs \<and> snd w = serializeTickets P (rs ! fst w))"

definition invContent :: "platform \<Rightarrow> store \<Rightarrow> bool" where
  "invContent P s =
     (list_all (holds (requests s)) (saveQueue s)
      \<and> list_all (carries P (requests s)) (inflight s)
      \<and> (settled s \<noteq> [] \<and> snd (last (settled s))
            \<longrightarrow> carries P (requests s) (fst (last (settled s)), disk s)))"

definition storeInv :: "platform \<Rightarrow> store \<Rightarrow> bool" where
  "storeInv P s = (invFlight s \<and> invOrder s \<and> invContent P s)"

text \<open>A store event other than a call of \<^verbatim>\<open>saveActiveTickets\<close>.\<close>

fun notSave :: "storeEvent \<Rightarrow> bool" where
  "notSave (Save tickets) = False"
| "notSave e = True"

subsection \<open>Timestamps\<close>

text \<open>
  \<^verbatim>\<open>a > b\<close> on two timestamp fields that hold valid dates.
\<close>

definition laterThan :: "jsdate option \<Rightarrow> jsdate option \<Rightarrow> bool" where
  "laterThan a b = (case (instant a, instant b) of (Some x, Some y) \<Rightarrow> x > y | _ \<Rightarrow> False)"

text \<open>
  What the model asks of the platform at an instant \<open>t\<close>: the ISO string of
  \<open>t\<close> is not empty (it is truthy in \<^verbatim>\<open>loadActiveTickets\<close>) and
  \<^verbatim>\<open>Date.parse\<close> reads \<open>t\<close> back from it. ECMAScript promises both for every
  valid time value. A record's timestamps are fine when each valid date among them is
  such an instant.
\<close>

definition roundTrips :: "platform \<Rightarrow> int \<Rightarrow> bool" where
  "roundTrips P t = (toISOString P t \<noteq> [] \<and> dateParse P (toISOString P t) = Some t)"

fun stampOk :: "platform \<Rightarrow> jsdate option \<Rightarrow> bool" where
  "stampOk P (Some (DateMs t)) = roundTrips P t"
| "stampOk P d = True"

definition stampsOk :: "platform \<Rightarrow> ticket \<Rightarrow> bool" where
  "stampsOk P r = (stampOk P (createdAt r) \<and> stampOk P (closedAt r) \<and> stampOk P (reopenedAt r))"

text \<open>
  The time value of a Date is at most 8.64e15 milliseconds from the epoch
  (\<^verbatim>\<open>TimeClip\<close>); anything beyond is an Invalid Date.
\<close>

definition timeValue :: "int \<Rightarrow> bool" where
  "timeValue t = (- 8640000000000000 \<le> t \<and> t \<le> 8640000000000000)"

fun validDate :: "jsdate option \<Rightarrow> bool" where
  "validDate (Some (DateMs t)) = timeValue t"
| "validDate d = True"

definition validStamps :: "ticket \<Rightarrow> bool" where
  "validStamps r = (validDate (createdAt r) \<and> validDate (closedAt r) \<and> validDate (reopenedAt r))"

text \<open>
  A record after one save and load: through \<^verbatim>\<open>JSON.stringify\<close> and back through
  the \<^verbatim>\<open>forEach\<close> of \<^verbatim>\<open>loadActiveTickets\<close> under its key.
\<close>

definition reload :: "platform \<Rightarrow> string \<Rightarrow> ticket \<Rightarrow> ticket" where
  "reload P key r = reviveTicket P key (ticketToJSON P r)"

text \<open>
  An entry that a save and load return as it is: no Invalid Date among its timestamps,
  and a \<^verbatim>\<open>channelId\<close> that is not the empty string unless the key is.
\<close>

definition plain :: "string \<times> ticket \<Rightarrow> bool" where
  "plain e =
     ((channelId (snd e) \<noteq> [] \<or> channelId (snd e) = fst e)
      \<and> createdAt (snd e) \<noteq> Some InvalidDate \<and> closedAt (snd e) \<noteq> Some InvalidDate
      \<and> reopenedAt (snd e) \<noteq> Some InvalidDate)"

subsection \<open>Records stored under their own channel id\<close>

text \<open>
  A registry is keyed when every record's \<^verbatim>\<open>channelId\<close> is the key it is stored
  under. A file is keyed when every record in it has no \<^verbatim>\<open>channelId\<close>, an empty
  one, or its key: these are the files the module writes, and the older ones without
  the field. A file that does not parse loads as the empty registry.
\<close>

definition keyed :: "registry \<Rightarrow> bool" where
  "keyed reg = list_all (\<lambda>e. channelId (snd e) = fst e) reg"

definition keyedEntry :: "string \<times> jticket \<Rightarrow> bool" where
  "keyedEntry e =
     (case jchannelId (snd e) of None \<Rightarrow> True | Some c \<Rightarrow> c = [] \<or> c = fst e)"

fun keyedFile :: "fileContent \<Rightarrow> bool" where
  "keyedFile (Doc entries) = list_all keyedEntry entries"
| "keyedFile f = True"

definition storeKeyed :: "store \<Rightarrow> bool" where
  "storeKeyed s =
     (keyedFile (disk s)
      \<and> list_all (\<lambda>q. keyed (snd q)) (saveQueue s)
      \<and> list_all (\<lambda>x. keyedFile (snd x)) (inflight s))"

definition worldInv :: "world \<Rightarrow> bool" where
  "worldInv w = (keyed (activeTickets w) \<and> storeKeyed (store w))"

subsection \<open>A record that is gone\<close>

text \<open>
  The events that put a record under the key \<open>k\<close>: a creation whose new channel
  is \<open>k\<close>, and a registration of \<open>k\<close>.
\<close>

fun recreates :: "string \<Rightarrow> event \<Rightarrow> bool" where
  "recreates k (Button (TicketCreate ticketType) i) = (newChannel i = k)"
| "recreates k (ModalSubmit i ticketType fd) = (newChannel i = k)"
| "recreates k (RegisterTicket i opts) = ((case optChannel opts of Some c \<Rightarrow> c | None \<Rightarrow> channel i) = k)"
| "recreates k e = False"

text \<open>The file loads with a record under \<open>k\<close>.\<close>

definition onFile :: "platform \<Rightarrow> fileContent \<Rightarrow> string \<Rightarrow> bool" where
  "onFile P f k = (map_of (loadActiveTickets P f) k \<noteq> None)"

text \<open>
  A run in which \<open>k\<close> is not created or registered again and the process does not
  restart while the file still holds a record under \<open>k\<close>.
\<close>

fun undisturbed :: "config \<Rightarrow> platform \<Rightarrow> string \<Rightarrow> world \<Rightarrow> event list \<Rightarrow> bool" where
  "undisturbed cfg P k w [] = True"
| "undisturbed cfg P k w (e # es) =
     (\<not> recreates k e \<and> (e = Restart \<longrightarrow> \<not> onFile P (disk (store w)) k)
      \<and> undisturbed cfg P k (step cfg P w e) es)"

text \<open>
  No snapshot in the queue and no write in flight holds a record under \<open>k\<close>; the
  record is gone for good when moreover neither the registry nor the file holds one.
\<close>

definition cleanStore :: "platform \<Rightarrow> string \<Rightarrow> store \<Rightarrow> bool" where
  "cleanStore P k s =
     (list_all (\<lambda>q. map_of (snd q) k = None) (saveQueue s)
      \<and> list_all (\<lambda>x. \<not> onFile P (snd x) k) (inflight s))"

definition goneForGood :: "platform \<Rightarrow> string \<Rightarrow> world \<Rightarrow> bool" where
  "goneForGood P k w =
     (map_of (activeTickets w) k = None \<and> \<not> onFile P (disk (store w)) k \<and> cleanStore P k (store w))"

text \<open>
  The record is gone from the registry, and a reload will not bring it back: the
  registry has been loaded on demand, or the record is gone for good.
\<close>

definition gone :: "platform \<Rightarrow> string \<Rightarrow> world \<Rightarrow> bool" where
  "gone P k w = (map_of (activeTickets w) k = None \<and> (ticketsLoaded w \<or> goneForGood P k w))"

text \<open>
  The save queue from request \<open>n\<close> on: that request and the later ones carry
  snapshots without \<open>k\<close>, and once one of them has been written the file holds no
  record under \<open>k\<close>.
\<close>

definition pending :: "platform \<Rightarrow> string \<Rightarrow> nat \<Rightarrow> store \<Rightarrow> bool" where
  "pending P k n s =
     (storeInv P s \<and> n < length (requests s)
      \<and> list_all (\<lambda>t. map_of t k = None) (drop n (requests s))
      \<and> (list_ex (\<lambda>x. n \<le> fst x \<and> snd x) (settled s) \<longrightarrow> \<not> onFile P (disk s) k))"

section \<open>Sample inputs\<close>

text \<open>
  Concrete configurations, records, registries, interactions and runs, on which the
  theorems are instantiated below.
\<close>

definition alice :: string where "alice = ''277000000000000001''"

definition bob :: string where "bob = ''277000000000000002''"

definition carol :: string where "carol = ''277000000000000003''"

definition ticketOf :: "string \<Rightarrow> string \<Rightarrow> string \<Rightarrow> ticket" where
  "ticketOf ch uid ticketType =
     \<lparr> channelId = ch, userId = uid, type' = ticketType,
       createdAt = Some (DateMs 1751825369000), closed = None, closedAt = None, closedBy = None,
       reopenedAt = None, reopenedBy = None, manuallyRegistered = None, formData = None \<rparr>"

definition ticketA :: ticket where
  "ticketA =
     \<lparr> channelId = ''1390000000000000001'', userId = ''277000000000000001'', type' = ''support'',
       createdAt = Some (DateMs 1751825369000), closed = None, closedAt = None, closedBy = None,
       reopenedAt = None, reopenedBy = None, manuallyRegistered = None, formData = None \<rparr>"

definition registryA :: registry where
  "registryA = [(''1390000000000000001'', ticketA)]"


definition registryStamped :: registry where
  "registryStamped =
     [(''1390000000000000001'',
       ticketA\<lparr>closed := Some False, closedAt := Some (DateMs 1751825460123),
               closedBy := Some carol, reopenedAt := Some (DateMs 1751829060999),
               reopenedBy := Some carol\<rparr>),
      (''1390000000000000002'',
       (ticketOf ''1390000000000000002'' bob ''hr'')\<lparr>createdAt := Some (DateMs (-1)),
               closedAt := Some InvalidDate\<rparr>)]"

definition cfgDefault :: config where
  "cfgDefault =
     \<lparr> staffRoles =
         \<lparr> hr = RoleScalar (Some ''1380000000000000011''),
           bookings = RoleArray [Some ''1380000000000000012''],
           support = RoleArray [Some ''1380000000000000042'', Some ''1380000000000000043''],
           partnership = RoleScalar None, founders = RoleScalar (Some ''1380000000000000007'') \<rparr>,
       ticketOptions = None \<rparr>"


definition cfgMalformed :: config where
  "cfgMalformed =
     \<lparr> staffRoles =
         \<lparr> hr = RoleScalar None, bookings = RoleScalar None,
           support = RoleArray [Some ''moderators'', None, Some '''', Some ''moderators'',
                                Some ''1380000000000000042''],
           partnership = RoleScalar None, founders = RoleScalar (Some ''1380000000000000007'') \<rparr>,
       ticketOptions = None \<rparr>"

definition worldOf :: "registry \<Rightarrow> world" where
  "worldOf reg = \<lparr> activeTickets = reg, ticketsLoaded = True, store = initStore NoFile, sendMessages = [] \<rparr>"

definition worldPersisted :: world where
  "worldPersisted =
     \<lparr> activeTickets = registryA, ticketsLoaded = True,
       store = initStore (serializeTickets isoPlatform registryA), sendMessages = [] \<rparr>"

definition press :: "string \<Rightarrow> string \<Rightarrow> int \<Rightarrow> interaction" where
  "press ch uid t =
     \<lparr> channel = ch, user = uid, administrator = False, memberRoles = [], guildRoles = [],
       now = t, rejects = [], newChannel = ''1390000000000000099'' \<rparr>"

definition pressStaff :: "string \<Rightarrow> string \<Rightarrow> int \<Rightarrow> interaction" where
  "pressStaff ch uid t = (press ch uid t)\<lparr>memberRoles := [''1380000000000000042'']\<rparr>"

definition twoSaves :: "storeEvent list" where
  "twoSaves = [Save [], Save registryA, WriteCompletes Written, TimerFires]"

definition twoSavesDone :: "storeEvent list" where
  "twoSavesDone = twoSaves @ [WriteCompletes Written, TimerFires]"

definition lastSaveFails :: "storeEvent list" where
  "lastSaveFails = [Save [], WriteCompletes Written, TimerFires, Save registryA,
                    WriteCompletes (WriteFailed Untouched), TimerFires]"

definition closeConfirmReopen :: "int \<Rightarrow> int \<Rightarrow> world" where
  "closeConfirmReopen t2 t3 =
     snd (onButton cfgDefault isoPlatform
       (snd (onButton cfgDefault isoPlatform
         (snd (onButton cfgDefault isoPlatform (worldOf registryA) TicketClose
                (pressStaff ''1390000000000000001'' carol 1751825400000)))
         TicketCloseConfirm (pressStaff ''1390000000000000001'' carol t2)))
       TicketReopen (pressStaff ''1390000000000000001'' carol t3))"

definition afterDelete :: world where
  "afterDelete =
     snd (onButton cfgDefault isoPlatform worldPersisted TicketDelete
            (pressStaff ''1390000000000000001'' carol 1751825460000))"

definition afterTornWrite :: world where
  "afterTornWrite =
     run cfgDefault isoPlatform (boot isoPlatform (serializeTickets isoPlatform registryA) [])
       [Ready [''1390000000000000001''], WriteDone (WriteFailed Truncated)]"

definition legacyFile :: fileContent where
  "legacyFile =
     Doc [(''1390000000000000001'',
           \<lparr> jchannelId = None, juserId = alice, jtype = ''support'',
             jcreatedAt = Some ''2025-07-06T18:09:29.000Z'', jclosed = None, jclosedAt = None,
             jclosedBy = None, jreopenedAt = None, jreopenedBy = None,
             jmanuallyRegistered = None, jformData = None \<rparr>)]"

definition sampleEvents :: "event list" where
  "sampleEvents =
     [Button (TicketCreate ''hr'') (press ''1300000000000000000'' bob 1751825460000),
      WriteDone Written, TimerDue, Restart,
      Button TicketCloseConfirm (pressStaff ''1390000000000000001'' carol 1751829060000)]"

section \<open>Basic facts\<close>

lemmas store_defs = storeRun_def initStore_def saveActiveTickets_def processNextSave_def
  writeCompletes_def timerFires_def allSettled_def resolved_def Let_def


subsection \<open>The on-demand load and the save request\<close>

lemma ensure_loaded [simp]: "ticketsLoaded w \<Longrightarrow> ensureTicketsLoaded P w = w"
  by (simp add: ensureTicketsLoaded_def)

lemma loaded_ensure [simp]: "ticketsLoaded (ensureTicketsLoaded P w)"
  by (simp add: ensureTicketsLoaded_def)

lemma store_ensure [simp]: "store (ensureTicketsLoaded P w) = store w"
  by (simp add: ensureTicketsLoaded_def)

lemma sendMessages_ensure [simp]: "sendMessages (ensureTicketsLoaded P w) = sendMessages w"
  by (simp add: ensureTicketsLoaded_def)

lemma ensure_idem [simp]: "ensureTicketsLoaded P (ensureTicketsLoaded P w) = ensureTicketsLoaded P w"
  by (simp add: ensureTicketsLoaded_def)

lemma registry_saveRegistry [simp]: "activeTickets (saveRegistry P w) = activeTickets w"
  by (simp add: saveRegistry_def)

lemma requests_save: "requests (saveActiveTickets P t s) = requests s @ [t]"
  by (simp add: saveActiveTickets_def Let_def processNextSave_def split: list.splits)

subsection \<open>The handlers on a channel with and without a record\<close>

lemma management_no_record:
  "map_of (activeTickets (ensureTicketsLoaded P w)) (channel i) = None \<Longrightarrow>
   managementButton cfg P w b i = (NotATicket, ensureTicketsLoaded P w)"
  by (simp add: managementButton_def)

lemma management_denied:
  "map_of (activeTickets (ensureTicketsLoaded P w)) (channel i) = Some r \<Longrightarrow> \<not> isStaff cfg i r \<Longrightarrow>
   b = TicketClose \<or> b = TicketDelete \<or> b = TicketReopen \<Longrightarrow>
   managementButton cfg P w b i = (StaffOnly, ensureTicketsLoaded P w)"
  by (auto simp: managementButton_def)

lemma management_close:
  "map_of (activeTickets (ensureTicketsLoaded P w)) (channel i) = Some r \<Longrightarrow> isStaff cfg i r \<Longrightarrow>
   managementButton cfg P w TicketClose i = (ConfirmPrompt, ensureTicketsLoaded P w)"
  by (simp add: managementButton_def closeTicket_def)

lemma management_reopen:
  "map_of (activeTickets (ensureTicketsLoaded P w)) (channel i) = Some r \<Longrightarrow> isStaff cfg i r \<Longrightarrow>
   managementButton cfg P w TicketReopen i = reopenTicket P w i"
  by (simp add: managementButton_def reopenTicket_def)

lemma management_delete:
  "map_of (activeTickets (ensureTicketsLoaded P w)) (channel i) = Some r \<Longrightarrow> isStaff cfg i r \<Longrightarrow>
   managementButton cfg P w TicketDelete i = deleteTicket P w i"
  by (simp add: managementButton_def deleteTicket_def)


lemma confirm_closes:
  assumes "map_of (activeTickets (ensureTicketsLoaded P w)) (channel i) = Some r"
    and "succeeds i PermissionsEdit" and "succeeds i ChannelSend"
  shows "fst (closeTicketConfirmed P w i) = TicketClosed
         \<and> ticketsLoaded (snd (closeTicketConfirmed P w i))
         \<and> map_of (activeTickets (snd (closeTicketConfirmed P w i))) (channel i)
             = Some (r\<lparr>closed := Some True, closedAt := Some (DateMs (now i)),
                        closedBy := Some (user i)\<rparr>)"
  using assms by (simp add: closeTicketConfirmed_def Let_def update_conv' saveRegistry_def)

lemma reopen_reopens:
  assumes "map_of (activeTickets (ensureTicketsLoaded P w)) (channel i) = Some r"
    and "succeeds i PermissionsEdit" and "succeeds i ChannelSend"
  shows "fst (reopenTicket P w i) = TicketReopened
         \<and> map_of (activeTickets (snd (reopenTicket P w i))) (channel i)
             = Some (r\<lparr>closed := Some False, reopenedAt := Some (DateMs (now i)),
                        reopenedBy := Some (user i)\<rparr>)"
  using assms by (simp add: reopenTicket_def Let_def update_conv' saveRegistry_def)

lemma delete_deletes:
  assumes "map_of (activeTickets (ensureTicketsLoaded P w)) (channel i) = Some r"
  shows "fst (deleteTicket P w i) = TicketDeleted
         \<and> ticketsLoaded (snd (deleteTicket P w i))
         \<and> activeTickets (snd (deleteTicket P w i))
             = AList.delete (channel i) (activeTickets (ensureTicketsLoaded P w))
         \<and> store (snd (deleteTicket P w i))
             = saveActiveTickets P (AList.delete (channel i) (activeTickets (ensureTicketsLoaded P w))) (store w)"
  using assms by (simp add: deleteTicket_def Let_def saveRegistry_def)


lemma openChannel_other:
  "newChannel i \<noteq> k \<Longrightarrow>
   map_of (activeTickets (snd (openChannel cfg P w i t))) k = map_of (activeTickets w) k
   \<and> ticketsLoaded (snd (openChannel cfg P w i t)) = ticketsLoaded w"
  by (simp add: openChannel_def Let_def update_conv' saveRegistry_def)

subsection \<open>The invariant of the save queue holds in every run\<close>

lemma holds_append: "holds rs q \<Longrightarrow> holds (rs @ [t]) q"
  by (simp add: holds_def nth_append)

lemma carries_append: "carries P rs w \<Longrightarrow> carries P (rs @ [t]) w"
  by (simp add: carries_def nth_append)

lemma list_all_holds_append: "list_all (holds rs) qs \<Longrightarrow> list_all (holds (rs @ [t])) qs"
  by (induction qs) (simp_all add: holds_append)

lemma list_all_carries_append: "list_all (carries P rs) ws \<Longrightarrow> list_all (carries P (rs @ [t])) ws"
  by (induction ws) (simp_all add: carries_append)

lemma holds_new: "holds (rs @ [t]) (length rs, t)"
  by (simp add: holds_def)

lemma holds_carries: "holds rs q \<Longrightarrow> carries P rs (fst q, serializeTickets P (snd q))"
  by (simp add: holds_def carries_def)

lemma storeInv_init: "storeInv P (initStore d)"
  by (simp add: storeInv_def invFlight_def invOrder_def invContent_def initStore_def)

lemma invFlight_save: "invFlight s \<Longrightarrow> invFlight (saveActiveTickets P t s)"
  by (cases "isSaving s") (auto simp: invFlight_def saveActiveTickets_def Let_def processNextSave_def)

lemma invOrder_save: "invFlight s \<Longrightarrow> invOrder s \<Longrightarrow> invOrder (saveActiveTickets P t s)"
  by (cases "isSaving s") (auto simp: invFlight_def invOrder_def saveActiveTickets_def Let_def processNextSave_def)

lemma invContent_save: "invFlight s \<Longrightarrow> invContent P s \<Longrightarrow> invContent P (saveActiveTickets P t s)"
  by (cases "isSaving s")
     (auto simp: invFlight_def invContent_def saveActiveTickets_def Let_def processNextSave_def
        list_all_holds_append list_all_carries_append carries_append holds_new
        intro: holds_carries[of "rs @ [t]" "(length rs, t)" for rs, simplified])

lemma invFlight_write: "invFlight s \<Longrightarrow> invFlight (writeCompletes out s)"
  by (cases "inflight s"; cases out) (auto simp: invFlight_def writeCompletes_def split: if_splits)

lemma invOrder_write: "invOrder s \<Longrightarrow> invOrder (writeCompletes out s)"
  by (cases "inflight s"; cases out) (auto simp: invOrder_def writeCompletes_def)

lemma invContent_write: "invContent P s \<Longrightarrow> invContent P (writeCompletes out s)"
  by (cases "inflight s"; cases out) (auto simp: invContent_def writeCompletes_def carries_def)

lemma invFlight_timer: "invFlight s \<Longrightarrow> invFlight (timerFires P s)"
  by (cases "saveQueue s"; cases "inflight s") (auto simp: invFlight_def timerFires_def processNextSave_def split: if_splits)

lemma invOrder_timer: "invFlight s \<Longrightarrow> invOrder s \<Longrightarrow> invOrder (timerFires P s)"
  by (cases "saveQueue s"; cases "inflight s") (auto simp: invFlight_def invOrder_def timerFires_def processNextSave_def split: if_splits)

lemma invContent_timer: "invFlight s \<Longrightarrow> invContent P s \<Longrightarrow> invContent P (timerFires P s)"
  by (cases "saveQueue s"; cases "inflight s") 
     (auto simp: invFlight_def invContent_def timerFires_def processNextSave_def holds_carries split: if_splits)

lemma storeInv_step: "storeInv P s \<Longrightarrow> storeInv P (storeStep P s e)"
  by (cases e)
     (simp_all add: storeInv_def invFlight_save invOrder_save invContent_save invFlight_write
        invOrder_write invContent_write invFlight_timer invOrder_timer invContent_timer)

lemma storeInv_foldl: "storeInv P s \<Longrightarrow> storeInv P (foldl (storeStep P) s es)"
  by (induction es arbitrary: s) (simp_all add: storeInv_step)

lemma storeInv_run: "storeInv P (storeRun P d es)"
  by (simp add: storeRun_def storeInv_foldl storeInv_init)

lemma resolved_step:
  assumes inv: "storeInv P s" and a: "\<not> resolved s n" and b: "resolved (storeStep P s e) n"
  shows "e = WriteCompletes Written \<and> inflight s = [(n, serializeTickets P (requests s ! n))]
         \<and> disk (storeStep P s e) = serializeTickets P (requests s ! n)"
proof (cases e)
  case (Save t)
  have "settled (saveActiveTickets P t s) = settled s"
    by (simp add: saveActiveTickets_def Let_def processNextSave_def split: list.splits)
  with a b Save show ?thesis by (simp add: resolved_def)
next
  case TimerFires
  have "settled (timerFires P s) = settled s"
    by (simp add: timerFires_def processNextSave_def split: list.splits)
  with a b TimerFires show ?thesis by (simp add: resolved_def)
next
  case (WriteCompletes out)
  show ?thesis
  proof (cases "inflight s")
    case Nil
    with a b WriteCompletes show ?thesis by (simp add: writeCompletes_def)
  next
    case (Cons w rest)
    from inv Cons have rest: "rest = []" by (simp add: storeInv_def invFlight_def split: if_splits)
    from inv Cons have c: "snd w = serializeTickets P (requests s ! fst w)"
      by (simp add: storeInv_def invContent_def carries_def)
    from a b WriteCompletes Cons have "out = Written \<and> fst w = n"
      by (cases out) (auto simp: writeCompletes_def resolved_def)
    with WriteCompletes Cons rest c show ?thesis
      by (cases w) (simp add: writeCompletes_def)
  qed
qed

lemma last_settled:
  assumes "map fst xs = [0..<N]" "0 < N" "(N - 1, b) \<in> set xs"
  shows "xs \<noteq> [] \<and> last xs = (N - 1, b)"
proof -
  from assms(1) have "length xs = N" by (metis length_map length_upt diff_zero)
  with assms(2) have ne: "xs \<noteq> []" by auto
  have "fst (last xs) = last (map fst xs)" using ne by (simp add: last_map)
  also have "\<dots> = N - 1" using assms(1,2) by simp
  finally have f: "fst (last xs) = N - 1" .
  have d: "distinct (map fst xs)" using assms(1) by simp
  have "(N - 1, snd (last xs)) \<in> set xs" using ne f by (metis last_in_set prod.collapse)
  with d assms(3) have "snd (last xs) = b" by (metis eq_key_imp_eq_value)
  with f ne show ?thesis by (metis prod.collapse)
qed

lemma final_content:
  assumes inv: "storeInv P s" and a: "allSettled s" and ne: "requests s \<noteq> []"
    and r: "resolved s (length (requests s) - 1)"
  shows "disk s = serializeTickets P (last (requests s))"
proof -
  let ?N = "length (requests s)"
  from inv a have m: "map fst (settled s) = [0..<?N]"
    by (simp add: storeInv_def invOrder_def allSettled_def)
  from ne have pos: "0 < ?N" by simp
  from r have "(?N - 1, True) \<in> set (settled s)" by (simp add: resolved_def)
  from last_settled[OF m pos this] have l: "settled s \<noteq> []" "last (settled s) = (?N - 1, True)" by simp_all
  with inv have "disk s = serializeTickets P (requests s ! (?N - 1))"
    by (simp add: storeInv_def invContent_def carries_def)
  with ne show ?thesis by (simp add: last_conv_nth)
qed

lemma requests_notSave:
  "list_all notSave ses \<Longrightarrow> requests (foldl (storeStep P) s ses) = requests s"
proof (induction ses arbitrary: s)
  case Nil
  then show ?case by simp
next
  case (Cons e ses)
  then have "requests (storeStep P s e) = requests s"
    by (cases e) (auto simp: writeCompletes_def timerFires_def processNextSave_def
        split: list.splits outcome.splits)
  with Cons show ?case by simp
qed

subsection \<open>Objects and their entries\<close>

lemma set_objectEntries [simp]: "set (objectEntries obj) = set obj"
  by (auto simp: objectEntries_def)

lemma distinct_keys_objectEntries:
  "distinct (map fst obj) \<Longrightarrow> distinct (map fst (objectEntries obj))"
proof -
  assume d: "distinct (map fst obj)"
  then have "distinct obj" and i: "inj_on fst (set obj)" by (simp_all add: distinct_map)
  then have "distinct (objectEntries obj)" by (auto simp: objectEntries_def)
  with i show ?thesis by (simp add: distinct_map)
qed

lemma map_of_objectEntries: "distinct (map fst obj) \<Longrightarrow> map_of (objectEntries obj) = map_of obj"
  using map_of_inject_set[of "objectEntries obj" obj] by (simp add: distinct_keys_objectEntries)

lemma objectEntries_plain: "\<forall>e\<in>set obj. \<not> isArrayIndex (fst e) \<Longrightarrow> objectEntries obj = obj"
  by (simp add: objectEntries_def filter_empty_conv filter_id_conv)

lemma not_index_long: "10 < length k \<Longrightarrow> \<not> isArrayIndex k"
  by (simp add: isArrayIndex_def split: option.splits)

lemma fold_update_fresh:
  "distinct (map fst ms) \<Longrightarrow> fst ` set acc \<inter> fst ` set ms = {} \<Longrightarrow>
   fold (\<lambda>e obj. AList.update (fst e) (snd e) obj) ms acc = acc @ ms"
proof (induction ms arbitrary: acc)
  case Nil
  then show ?case by simp
next
  case (Cons e ms)
  from Cons.prems have fresh: "fst e \<notin> fst ` set acc" by auto
  have up: "AList.update (fst e) (snd e) acc = acc @ [e]"
    using fresh by (induction acc) auto
  from Cons.prems have "distinct (map fst ms)" "fst ` set (acc @ [e]) \<inter> fst ` set ms = {}" by auto
  from Cons.IH[OF this] up show ?case by simp
qed

lemma jsonParse_distinct: "distinct (map fst ms) \<Longrightarrow> jsonParse ms = ms"
  using fold_update_fresh[of ms "[]"] by (simp add: jsonParse_def)

lemma distinct_fold_update:
  "distinct (map fst acc) \<Longrightarrow> distinct (map fst (fold (\<lambda>e obj. AList.update (fst e) (snd e) obj) ms acc))"
  by (induction ms arbitrary: acc) (simp_all add: distinct_update)

lemma distinct_jsonParse: "distinct (map fst (jsonParse ms))"
  by (simp add: jsonParse_def distinct_fold_update)

lemma set_update_subset: "set (AList.update k v al) \<subseteq> insert (k, v) (set al)"
  by (induction al) auto

lemma set_fold_update:
  "set (fold (\<lambda>e obj. AList.update (fst e) (snd e) obj) ms acc) \<subseteq> set acc \<union> set ms"
proof (induction ms arbitrary: acc)
  case Nil
  then show ?case by simp
next
  case (Cons e ms)
  from Cons.IH[of "AList.update (fst e) (snd e) acc"] set_update_subset[of "fst e" "snd e" acc]
  show ?case by auto
qed

lemma set_jsonParse: "set (jsonParse ms) \<subseteq> set ms"
  using set_fold_update[of ms "[]"] by (simp add: jsonParse_def)

lemma distinct_fold_assign:
  "distinct (map fst acc) \<Longrightarrow>
   distinct (map fst (fold (\<lambda>e obj. if fst e = p then obj else AList.update (fst e) (snd e) obj) m acc))"
  by (induction m arbitrary: acc) (simp_all add: distinct_update)

lemma distinct_ticketsObj: "distinct (map fst (ticketsObj m))"
  by (simp add: ticketsObj_def distinct_fold_assign)

lemma set_fold_assign:
  "set (fold (\<lambda>e obj. if fst e = p then obj else AList.update (fst e) (snd e) obj) m acc) \<subseteq> set acc \<union> set m"
proof (induction m arbitrary: acc)
  case Nil
  then show ?case by simp
next
  case (Cons e m)
  from Cons.IH[of "AList.update (fst e) (snd e) acc"] Cons.IH[of acc]
    set_update_subset[of "fst e" "snd e" acc]
  show ?case by auto
qed

lemma set_ticketsObj: "set (ticketsObj m) \<subseteq> set m"
  using set_fold_assign[of _ m "[]"] by (simp add: ticketsObj_def)

lemma fold_assign_fresh:
  "distinct (map fst m) \<Longrightarrow> fst ` set acc \<inter> fst ` set m = {} \<Longrightarrow>
   fold (\<lambda>e obj. if fst e = p then obj else AList.update (fst e) (snd e) obj) m acc
     = acc @ filter (\<lambda>e. fst e \<noteq> p) m"
proof (induction m arbitrary: acc)
  case Nil
  then show ?case by simp
next
  case (Cons e m)
  from Cons.prems have fresh: "fst e \<notin> fst ` set acc" by auto
  have up: "AList.update (fst e) (snd e) acc = acc @ [e]"
    using fresh by (induction acc) auto
  from Cons.prems have d: "distinct (map fst m)" and 1: "fst ` set (acc @ [e]) \<inter> fst ` set m = {}"
    and 2: "fst ` set acc \<inter> fst ` set m = {}" by auto
  from Cons.IH[OF d 1] Cons.IH[OF d 2] up show ?case by simp
qed

lemma ticketsObj_distinct: "distinct (map fst m) \<Longrightarrow> ticketsObj m = filter (\<lambda>e. fst e \<noteq> ''__proto__'') m"
  using fold_assign_fresh[of m "[]"] by (simp add: ticketsObj_def)

lemma map_of_filter_key:
  "map_of (filter (\<lambda>e. fst e \<noteq> p) m) k = (if k = p then None else map_of m k)"
  by (induction m) auto

lemma map_of_map_entries:
  "map_of (map (\<lambda>e. (fst e, f (fst e) (snd e))) m) k = map_option (f k) (map_of m k)"
  by (induction m) auto

subsection \<open>Saving and loading\<close>

lemma update_fresh: "k \<notin> fst ` set al \<Longrightarrow> AList.update k v al = al @ [(k, v)]"
  by (induction al) auto

lemma fold_loadEntry_distinct:
  "distinct (map fst es) \<Longrightarrow> fst ` set acc \<inter> fst ` set es = {} \<Longrightarrow>
   fold (loadEntry P) es acc = acc @ map (\<lambda>e. (fst e, reviveTicket P (fst e) (snd e))) es"
proof (induction es arbitrary: acc)
  case Nil
  then show ?case by simp
next
  case (Cons e es)
  from Cons.prems have fresh: "fst e \<notin> fst ` set acc" by auto
  then have step: "loadEntry P e acc = acc @ [(fst e, reviveTicket P (fst e) (snd e))]"
    by (simp add: loadEntry_def update_fresh)
  from Cons.prems have "distinct (map fst es)"
    and "fst ` set (acc @ [(fst e, reviveTicket P (fst e) (snd e))]) \<inter> fst ` set es = {}"
    by auto
  from Cons.IH[OF this] step show ?case by simp
qed

lemma fold_loadEntry_entries:
  "fold (loadEntry P) (objectEntries (jsonParse ms)) []
     = map (\<lambda>e. (fst e, reviveTicket P (fst e) (snd e))) (objectEntries (jsonParse ms))"
  using fold_loadEntry_distinct[OF distinct_keys_objectEntries[OF distinct_jsonParse], of "[]" ms P]
  by simp

lemma set_load_Doc:
  "(k, r) \<in> set (loadActiveTickets P (Doc ms)) \<Longrightarrow> \<exists>v. (k, v) \<in> set ms \<and> r = reviveTicket P k v"
proof -
  assume "(k, r) \<in> set (loadActiveTickets P (Doc ms))"
  then obtain v where "(k, v) \<in> set (jsonParse ms)" and r: "r = reviveTicket P k v"
    by (auto simp: fold_loadEntry_entries)
  with set_jsonParse[of ms] have "(k, v) \<in> set ms" by blast
  with r show ?thesis by blast
qed

lemma map_of_load_Doc:
  "map_of (loadActiveTickets P (Doc ms)) k = map_option (reviveTicket P k) (map_of (jsonParse ms) k)"
  by (simp add: fold_loadEntry_entries map_of_map_entries map_of_objectEntries distinct_jsonParse)

lemma keys_serialize:
  "serializeTickets P m = Doc ms \<Longrightarrow> fst ` set ms \<subseteq> fst ` set m"
  by (force simp: serializeTickets_def dest: subsetD[OF set_ticketsObj])

lemma map_of_load_serialize_None:
  "map_of m k = None \<Longrightarrow> map_of (loadActiveTickets P (serializeTickets P m)) k = None"
proof -
  assume "map_of m k = None"
  then have "k \<notin> fst ` set m" by (simp add: map_of_eq_None_iff)
  with set_ticketsObj[of m] have "k \<notin> fst ` set (ticketsObj m)" by auto
  then show ?thesis
    by (force simp: serializeTickets_def fold_loadEntry_entries map_of_eq_None_iff image_iff
        dest: subsetD[OF set_jsonParse])
qed

lemma map_of_load_serialize:
  assumes "distinct (map fst m)"
  shows "map_of (loadActiveTickets P (serializeTickets P m)) k
         = (if k = ''__proto__'' then None else map_option (reload P k) (map_of m k))"
proof -
  let ?E = "objectEntries (ticketsObj m)"
  let ?J = "map (\<lambda>e. (fst e, ticketToJSON P (snd e))) ?E"
  have dE: "distinct (map fst ?E)" by (simp add: distinct_keys_objectEntries distinct_ticketsObj)
  have "map fst ?J = map fst ?E" by (induction ?E) simp_all
  with dE have dJ: "distinct (map fst ?J)" by (simp only:)
  have "map_of (loadActiveTickets P (serializeTickets P m)) k
        = map_option (reviveTicket P k) (map_of ?J k)"
    unfolding serializeTickets_def map_of_load_Doc jsonParse_distinct[OF dJ] ..
  also have "map_of ?J k = map_option (ticketToJSON P) (map_of ?E k)"
    using map_of_map_entries[of "\<lambda>k. ticketToJSON P" ?E k] by simp
  also have "map_of ?E k = map_of (ticketsObj m) k"
    by (simp add: map_of_objectEntries distinct_ticketsObj)
  also have "\<dots> = (if k = ''__proto__'' then None else map_of m k)"
    by (simp add: ticketsObj_distinct[OF assms] map_of_filter_key)
  finally show ?thesis by (simp add: reload_def[abs_def] option.map_comp comp_def)
qed

lemma load_serialize:
  assumes "distinct (map fst m)" and "\<forall>e\<in>set m. \<not> isArrayIndex (fst e) \<and> fst e \<noteq> ''__proto__''"
  shows "loadActiveTickets P (serializeTickets P m) = map (\<lambda>e. (fst e, reload P (fst e) (snd e))) m"
proof -
  let ?J = "map (\<lambda>e. (fst e, ticketToJSON P (snd e))) m"
  from assms have o: "ticketsObj m = m" by (simp add: ticketsObj_distinct filter_id_conv)
  from assms(2) have e: "objectEntries m = m" by (simp add: objectEntries_plain)
  have k: "map fst ?J = map fst m" by (induction m) simp_all
  with assms(1) have dJ: "distinct (map fst ?J)" by (simp only:)
  from assms(2) have eJ: "objectEntries ?J = ?J" by (intro objectEntries_plain) auto
  show ?thesis
    using fold_loadEntry_entries[of P ?J]
    by (simp add: serializeTickets_def o e jsonParse_distinct[OF dJ] eJ reload_def comp_def)
qed

lemma serialize_plain:
  assumes "distinct (map fst m)" and "\<forall>e\<in>set m. \<not> isArrayIndex (fst e) \<and> fst e \<noteq> ''__proto__''"
  shows "serializeTickets P m = Doc (map (\<lambda>e. (fst e, ticketToJSON P (snd e))) m)"
proof -
  from assms have "ticketsObj m = m" by (simp add: ticketsObj_distinct filter_id_conv)
  moreover from assms(2) have "objectEntries m = m" by (simp add: objectEntries_plain)
  ultimately show ?thesis by (simp add: serializeTickets_def)
qed

lemma serialize_Nil: "serializeTickets P [] = Doc []"
  by (simp add: serialize_plain)

lemma serialize_registryA:
  "serializeTickets P registryA = Doc [(''1390000000000000001'', ticketToJSON P ticketA)]"
  by (simp add: serialize_plain registryA_def not_index_long)

subsection \<open>Timestamps through a save and a load\<close>

lemma instant_revive:
  "stampOk P d \<Longrightarrow> instant (reviveDate P (Option.bind d (dateToJSON P))) = instant d"
  by (cases "(P, d)" rule: stampOk.cases) (auto simp: reviveDate_def newDate_def roundTrips_def)

lemma reload_instants:
  assumes "stampsOk P r"
  shows "instant (createdAt (reload P k r)) = instant (createdAt r)
         \<and> instant (closedAt (reload P k r)) = instant (closedAt r)
         \<and> instant (reopenedAt (reload P k r)) = instant (reopenedAt r)"
  using assms by (simp add: reload_def reviveTicket_def ticketToJSON_def stampsOk_def instant_revive)

lemma revive_id:
  "stampOk P d \<Longrightarrow> d \<noteq> Some InvalidDate \<Longrightarrow> reviveDate P (Option.bind d (dateToJSON P)) = d"
  by (cases "(P, d)" rule: stampOk.cases) (auto simp: reviveDate_def newDate_def roundTrips_def)

lemma reload_id: "stampsOk P r \<Longrightarrow> plain (k, r) \<Longrightarrow> reload P k r = r"
  by (simp add: reload_def reviveTicket_def ticketToJSON_def stampsOk_def plain_def revive_id)

lemma map_reload_id:
  "list_all (\<lambda>e. stampsOk P (snd e)) m \<Longrightarrow> list_all plain m \<Longrightarrow>
   map (\<lambda>e. (fst e, reload P (fst e) (snd e))) m = m"
  by (induction m) (auto simp: reload_id)

subsection \<open>The platform instance reads back what it writes\<close>

lemma digit_cases:
  fixes n :: int
  shows "n mod 10 = 0 \<or> n mod 10 = 1 \<or> n mod 10 = 2 \<or> n mod 10 = 3 \<or> n mod 10 = 4
    \<or> n mod 10 = 5 \<or> n mod 10 = 6 \<or> n mod 10 = 7 \<or> n mod 10 = 8 \<or> n mod 10 = 9"
proof -
  have small: "m = 0 \<or> m = 1 \<or> m = 2 \<or> m = 3 \<or> m = 4 \<or> m = 5 \<or> m = 6 \<or> m = 7
      \<or> m = 8 \<or> m = 9" if "0 \<le> m" "m < 10" for m :: int
    using that by presburger
  show ?thesis by (rule small) simp_all
qed

lemma digitVal_digitChar [simp]: "digitVal (digitChar n) = Some (n mod 10)"
  using digit_cases[of n] by (elim disjE) (simp_all add: digitChar_def digitVal_def)

lemma digitChar_not_sign [simp]: "digitChar n \<noteq> CHR ''+''" "digitChar n \<noteq> CHR ''-''"
  using digit_cases[of n] by (elim disjE; simp add: digitChar_def)+

lemma two_digits: "10 * (n div 10 mod 10) + n mod 10 = n mod (100::int)"
  using zmod_zmult2_eq[of 10 n 10] by simp

lemma three_digits: "100 * (n div 100 mod 10) + n mod 100 = n mod (1000::int)"
  using zmod_zmult2_eq[of 10 n 100] by simp

lemma four_digits: "100 * (n div 100 mod 100) + n mod 100 = n mod (10000::int)"
  using zmod_zmult2_eq[of 100 n 100] by simp

lemma six_digits: "10000 * (n div 10000 mod 100) + n mod 10000 = n mod (1000000::int)"
  using zmod_zmult2_eq[of 100 n 10000] by simp

lemma readDigits_append:
  "readDigits acc (xs @ ys) = (case readDigits acc xs of None \<Rightarrow> None | Some a \<Rightarrow> readDigits a ys)"
  by (induction xs arbitrary: acc) (simp_all split: option.splits)

lemma readDigits_pad2: "readDigits acc (pad2 n) = Some (100 * acc + n mod 100)"
  using two_digits[of n] by (simp add: pad2_def)

lemma readDigits_pad3: "readDigits acc (pad3 n) = Some (1000 * acc + n mod 1000)"
  using three_digits[of n] by (simp add: pad3_def readDigits_pad2)

lemma readDigits_pad4: "readDigits acc (pad4 n) = Some (10000 * acc + n mod 10000)"
  using four_digits[of n] by (simp add: pad4_def readDigits_append readDigits_pad2)

lemma readDigits_pad6: "readDigits acc (pad6 n) = Some (1000000 * acc + n mod 1000000)"
  using six_digits[of n] by (simp add: pad6_def readDigits_append readDigits_pad2 readDigits_pad4)

lemma length_pad [simp]: "length (pad2 n) = 2" "length (pad3 n) = 3" "length (pad4 n) = 4"
  "length (pad6 n) = 6"
  by (simp_all add: pad2_def pad3_def pad4_def pad6_def)

lemma time_of_day:
  fixes x :: int
  assumes "0 \<le> x" "x < 86400000"
  shows "x div 3600000 \<le> 23" "0 \<le> x div 3600000"
    "x div 3600000 * 3600000 + x div 60000 mod 60 * 60000 + x div 1000 mod 60 * 1000 + x mod 1000 = x"
proof -
  show "x div 3600000 \<le> 23" using assms by simp
  show "0 \<le> x div 3600000" using assms by simp
  have a: "x div 60000 = x div 1000 div 60" using zdiv_zmult2_eq[of 60 x 1000] by simp
  have b: "x div 3600000 = x div 60000 div 60" using zdiv_zmult2_eq[of 60 x 60000] by simp
  have 1: "x = 1000 * (x div 1000) + x mod 1000" by simp
  have 2: "x div 1000 = 60 * (x div 1000 div 60) + x div 1000 mod 60" by simp
  have 3: "x div 60000 = 60 * (x div 60000 div 60) + x div 60000 mod 60" by simp
  from 1 2 3 a b
  show "x div 3600000 * 3600000 + x div 60000 mod 60 * 60000 + x div 1000 mod 60 * 1000 + x mod 1000 = x"
    by linarith
qed

lemma years_fit: "list_all yearFits (map int [0..<400])"
  by code_simp

lemma year_fits: "0 \<le> y \<Longrightarrow> y < 400 \<Longrightarrow> yearFits y"
proof -
  assume "0 \<le> y" "y < 400"
  then have "y \<in> set (map int [0..<400])" by (auto simp: image_iff intro: bexI[of _ "nat y"])
  with years_fit show ?thesis by (simp only: list_all_iff)
qed

lemma find_year:
  "daysBeforeYear 0 \<le> doe \<Longrightarrow> doe < daysBeforeYear (int n) \<Longrightarrow>
   \<exists>y. 0 \<le> y \<and> y < int n \<and> daysBeforeYear y \<le> doe \<and> doe < daysBeforeYear (y + 1)"
proof (induction n)
  case 0
  then show ?case by simp
next
  case (Suc n)
  show ?case
  proof (cases "doe < daysBeforeYear (int n)")
    case True
    with Suc obtain y where "0 \<le> y" "y < int n" "daysBeforeYear y \<le> doe" "doe < daysBeforeYear (y + 1)"
      by blast
    then show ?thesis by (intro exI[of _ y]) simp
  next
    case False
    with Suc.prems show ?thesis by (intro exI[of _ "int n"]) (simp add: add.commute)
  qed
qed

lemma div_step: "0 \<le> k \<Longrightarrow> (a + k) div 1460 \<le> a div 1460 + (k::int)"
proof -
  assume "0 \<le> k"
  then have "(a + k) div 1460 \<le> (a + 1460 * k) div 1460" by (intro zdiv_mono1) simp_all
  then show ?thesis by simp
qed

lemma yearOfEra_mono:
  assumes "0 \<le> a" "a \<le> b" "b < 146096"
  shows "yearOfEra a \<le> yearOfEra b"
proof -
  from assms have z: "a div 146096 = 0" "b div 146096 = 0" by simp_all
  from div_step[of "b - a" a] assms have 1: "b div 1460 \<le> a div 1460 + (b - a)" by simp
  from assms have 2: "a div 36524 \<le> b div 36524" by (intro zdiv_mono1) simp_all
  from 1 2 z have "a - a div 1460 + a div 36524 - a div 146096 \<le> b - b div 1460 + b div 36524 - b div 146096"
    by linarith
  then show ?thesis unfolding yearOfEra_def by (intro zdiv_mono1) simp_all
qed

lemma div_bounds:
  fixes a n :: int
  assumes "0 < n"
  shows "n * (a div n) \<le> a" "a < n * (a div n) + n"
  using mult_div_mod_eq[of n a] pos_mod_sign[OF assms, of a] pos_mod_bound[OF assms, of a]
  by linarith+

lemma year_length: "daysBeforeYear (y + 1) \<le> daysBeforeYear y + 366"
proof -
  have "(y + 1) div 4 \<le> (y + 4) div 4" by (intro zdiv_mono1) simp_all
  then have 1: "(y + 1) div 4 \<le> y div 4 + 1" by simp
  have 2: "y div 100 \<le> (y + 1) div 100" by (intro zdiv_mono1) simp_all
  have "365 * (y + 1) + a - b \<le> 365 * y + c - d + 366" if "a \<le> c + 1" "d \<le> b" for a b c d :: int
    using that by (simp add: algebra_simps)
  from this[OF 1 2] show ?thesis unfolding daysBeforeYear_def .
qed

lemma daysBeforeYear_bounds:
  "0 \<le> y \<Longrightarrow> 0 \<le> daysBeforeYear y" "0 \<le> y \<Longrightarrow> y \<le> 400 \<Longrightarrow> daysBeforeYear y \<le> 146096"
proof -
  assume y: "0 \<le> y"
  then have "y div 100 \<le> y div 4" by (intro zdiv_mono2) simp_all
  with y show "0 \<le> daysBeforeYear y" unfolding daysBeforeYear_def by linarith
next
  assume y: "0 \<le> y" "y \<le> 400"
  show "daysBeforeYear y \<le> 146096"
  proof (cases "y = 400")
    case True
    then show ?thesis by (simp add: daysBeforeYear_def)
  next
    case False
    with y have "y \<le> 399" by simp
    then have "y div 4 \<le> 399 div 4" by (intro zdiv_mono1) simp_all
    moreover from y have "0 \<le> y div 100" by simp
    ultimately show ?thesis using \<open>y \<le> 399\<close> unfolding daysBeforeYear_def by simp
  qed
qed

lemma yearOfEra_correct:
  assumes "0 \<le> doe" "doe \<le> 146096"
  shows "0 \<le> yearOfEra doe \<and> yearOfEra doe < 400
         \<and> daysBeforeYear (yearOfEra doe) \<le> doe \<and> doe \<le> daysBeforeYear (yearOfEra doe) + 365"
proof (cases "doe = 146096")
  case True
  then show ?thesis by (simp add: yearOfEra_def daysBeforeYear_def)
next
  case False
  with assms have lt: "doe < 146096" by simp
  have "daysBeforeYear 0 \<le> doe" "doe < daysBeforeYear (int 400)"
    using assms lt by (simp_all add: daysBeforeYear_def)
  from find_year[OF this] obtain y where y: "0 \<le> y" "y < 400"
    and lo: "daysBeforeYear y \<le> doe" and hi: "doe < daysBeforeYear (y + 1)"
    by auto
  from year_fits[OF y]
  have f: "yearOfEra (daysBeforeYear y) = y" "yearOfEra (daysBeforeYear (y + 1) - 1) = y"
    by (simp_all add: yearFits_def)
  from y daysBeforeYear_bounds(1)[of y] daysBeforeYear_bounds(2)[of "y + 1"]
  have b: "0 \<le> daysBeforeYear y" "daysBeforeYear (y + 1) - 1 < 146096" by simp_all
  from yearOfEra_mono[OF b(1) lo lt] f(1) have 1: "y \<le> yearOfEra doe" by simp
  from yearOfEra_mono[OF assms(1) _ b(2)] hi f(2) have 2: "yearOfEra doe \<le> y" by simp
  from 1 2 have "yearOfEra doe = y" by simp
  with y lo hi year_length[of y] show ?thesis by simp
qed

lemma month_day:
  fixes doy :: int
  assumes "0 \<le> doy" "doy \<le> 365"
  shows "0 \<le> (5 * doy + 2) div 153" "(5 * doy + 2) div 153 \<le> 11"
    "1 \<le> doy - (153 * ((5 * doy + 2) div 153) + 2) div 5 + 1"
    "doy - (153 * ((5 * doy + 2) div 153) + 2) div 5 + 1 \<le> 31"
proof -
  let ?mp = "(5 * doy + 2) div 153"
  let ?q = "(153 * ?mp + 2) div 5"
  show "0 \<le> ?mp" using assms by simp
  have "?mp \<le> (5 * 365 + 2) div 153" using assms by (intro zdiv_mono1) simp_all
  then show "?mp \<le> 11" by simp
  have m: "153 * ?mp \<le> 5 * doy + 2" "5 * doy + 2 < 153 * ?mp + 153"
    using div_bounds[of 153 "5 * doy + 2"] by simp_all
  have q: "5 * ?q \<le> 153 * ?mp + 2" "153 * ?mp + 2 < 5 * ?q + 5"
    using div_bounds[of 5 "153 * ?mp + 2"] by simp_all
  from m q show "1 \<le> doy - ?q + 1" by linarith
  from m q show "doy - ?q + 1 \<le> 31" by linarith
qed

lemma civil_inverse:
  assumes "civilFromDays z = (y, m, d)"
  shows "daysFromCivil y m d = z \<and> 1 \<le> m \<and> m \<le> 12 \<and> 1 \<le> d \<and> d \<le> 31
         \<and> ((z + 719468) div 146097) * 400 \<le> y \<and> y \<le> ((z + 719468) div 146097) * 400 + 400"
proof -
  define era where "era = (z + 719468) div 146097"
  define doe where "doe = (z + 719468) mod 146097"
  define yoe where "yoe = yearOfEra doe"
  define doy where "doy = doe - daysBeforeYear yoe"
  define mp where "mp = (5 * doy + 2) div 153"
  define dom where "dom = doy - (153 * mp + 2) div 5 + 1"
  have "0 \<le> doe" "doe < 146097" by (simp_all add: doe_def)
  then have doe: "0 \<le> doe" "doe \<le> 146096" by simp_all
  from yearOfEra_correct[OF doe] have yoe: "0 \<le> yoe" "yoe < 400" and doy: "0 \<le> doy" "doy \<le> 365"
    by (simp_all add: yoe_def doy_def)
  from month_day[OF doy] have mp: "0 \<le> mp" "mp \<le> 11" and dom: "1 \<le> dom" "dom \<le> 31"
    by (simp_all add: mp_def dom_def)
  have z: "era * 146097 + doe = z + 719468" by (simp add: era_def doe_def)
  have c: "civilFromDays z = civilOfMonth (yoe + era * 400) doy mp"
    by (simp add: civilFromDays_def civilOfDayOfEra_def civilOfYearOfEra_def civilOfDayOfYear_def
        era_def doe_def yoe_def doy_def mp_def)
  have e: "(yoe + era * 400) div 400 = era" "(yoe + era * 400) mod 400 = yoe" "yoe mod 400 = yoe"
    using yoe by simp_all
  have days: "daysOfEra era yoe doy = z"
    using z by (simp add: daysOfEra_def doy_def)
  show ?thesis
  proof (cases "mp < 10")
    case True
    with c assms have v: "y = yoe + era * 400" "m = mp + 3" "d = dom"
      by (simp_all add: civilOfMonth_def dom_def)
    have "(153 * (m - 3) + 2) div 5 + d - 1 = doy" by (simp add: v dom_def)
    with v mp have "daysFromCivil y m d = daysOfEra era yoe doy"
      by (simp add: daysFromCivil_def e)
    with days v mp dom yoe True show ?thesis by (simp add: era_def)
  next
    case False
    with c assms have v: "y = yoe + era * 400 + 1" "m = mp - 9" "d = dom"
      by (simp_all add: civilOfMonth_def dom_def)
    have "(153 * (m + 9) + 2) div 5 + d - 1 = doy" by (simp add: v dom_def)
    with v mp have "daysFromCivil y m d = daysOfEra era yoe doy"
      by (simp add: daysFromCivil_def e)
    with days v mp dom yoe False show ?thesis by (simp add: era_def)
  qed
qed

lemma isoParse_isoYear:
  assumes "- 1000000 < y" "y < 1000000"
  shows "isoParse (isoYear y @ rest) = parseRest y rest"
proof -
  consider "0 \<le> y \<and> y \<le> 9999" | "y < 0" | "9999 < y" by linarith
  then show ?thesis
  proof cases
    case 1
    then have "readDigits 0 (pad4 y) = Some y" by (simp add: readDigits_pad4)
    moreover have "hd (pad4 y @ rest) \<noteq> CHR ''+''" "hd (pad4 y @ rest) \<noteq> CHR ''-''"
      by (simp_all add: pad4_def pad2_def)
    moreover have "pad4 y \<noteq> []" by (simp add: pad4_def pad2_def)
    ultimately show ?thesis using 1 by (simp add: isoParse_def isoYear_def field_def)
  next
    case 2
    with assms have "readDigits 0 (pad6 (- y)) = Some (- y)" by (simp add: readDigits_pad6)
    with 2 show ?thesis by (simp add: isoParse_def isoYear_def field_def)
  next
    case 3
    with assms have "readDigits 0 (pad6 y) = Some y" by (simp add: readDigits_pad6)
    with 3 show ?thesis by (simp add: isoParse_def isoYear_def field_def)
  qed
qed

lemma parseRest_fields:
  "parseRest y (CHR ''-'' # pad2 mo @ CHR ''-'' # pad2 d @ CHR ''T'' # pad2 h @ CHR '':'' # pad2 mi
                 @ CHR '':'' # pad2 sec @ CHR ''.'' # pad3 ms @ ''Z'')
   = makeTime y (mo mod 100) (d mod 100) (h mod 100) (mi mod 100) (sec mod 100) (ms mod 1000)"
proof -
  have f: "readDigits 0 [digitChar (n div 10), digitChar n] = Some (n mod 100)" for n
    using readDigits_pad2[of 0 n] by (simp add: pad2_def)
  have g: "readDigits 0 [digitChar (n div 100), digitChar (n div 10), digitChar n] = Some (n mod 1000)" for n
    using readDigits_pad3[of 0 n] by (simp add: pad3_def pad2_def)
  show ?thesis
    by (simp add: parseRest_def field_def pad2_def pad3_def f g del: readDigits.simps)
qed

lemma isoPlatform_roundTrips:
  assumes "- 8640000000000000 \<le> t" "t \<le> 8640000000000000"
  shows "roundTrips isoPlatform t"
proof -
  define z where "z = t div 86400000"
  define x where "x = t mod 86400000"
  define h where "h = x div 3600000"
  define mi where "mi = x div 60000 mod 60"
  define sec where "sec = x div 1000 mod 60"
  define ms where "ms = x mod 1000"
  obtain y m d where c: "civilFromDays z = (y, m, d)" by (cases "civilFromDays z") auto
  define era where "era = (z + 719468) div 146097"
  from civil_inverse[OF c] have inv: "daysFromCivil y m d = z"
    and md: "1 \<le> m" "m \<le> 12" "1 \<le> d" "d \<le> 31"
    and yb: "era * 400 \<le> y" "y \<le> era * 400 + 400"
    by (simp_all add: era_def)
  have "(- 8640000000000000) div 86400000 \<le> z" unfolding z_def using assms(1) by (rule zdiv_mono1) simp
  moreover have "z \<le> 8640000000000000 div 86400000" unfolding z_def using assms(2) by (rule zdiv_mono1) simp
  ultimately have zb: "- 100000000 \<le> z" "z \<le> 100000000" by simp_all
  have "(- 100000000 + 719468) div 146097 \<le> era" unfolding era_def using zb(1) by (intro zdiv_mono1) simp_all
  moreover have "era \<le> (100000000 + 719468) div 146097" unfolding era_def using zb(2) by (intro zdiv_mono1) simp_all
  ultimately have "- 680 \<le> era" "era \<le> 689" by simp_all
  with yb have y: "- 1000000 < y" "y < 1000000" by simp_all
  have x: "0 \<le> x" "x < 86400000" by (simp_all add: x_def)
  have hb: "0 \<le> h" "h \<le> 23"
    unfolding h_def by (rule time_of_day(2)[OF x], rule time_of_day(1)[OF x])
  have sum: "h * 3600000 + mi * 60000 + sec * 1000 + ms = x"
    unfolding h_def mi_def sec_def ms_def by (rule time_of_day(3)[OF x])
  have rng: "0 \<le> mi" "mi \<le> 59" "0 \<le> sec" "sec \<le> 59" "0 \<le> ms" "ms < 1000"
    by (simp_all add: mi_def sec_def ms_def)
  have str: "isoString t = isoYear y @ (CHR ''-'' # pad2 m @ CHR ''-'' # pad2 d @ CHR ''T'' # pad2 h
      @ CHR '':'' # pad2 mi @ CHR '':'' # pad2 sec @ CHR ''.'' # pad3 ms @ ''Z'')"
    using c by (simp add: isoString_def isoDate_def isoTime_def z_def x_def h_def mi_def sec_def ms_def)
  have small: "m mod 100 = m" "d mod 100 = d" "h mod 100 = h" "mi mod 100 = mi" "sec mod 100 = sec"
    "ms mod 1000 = ms"
    using md hb rng by simp_all
  have t: "z * 86400000 + x = t" by (simp add: z_def x_def)
  have "isoParse (isoString t) = makeTime y m d h mi sec ms"
    unfolding str isoParse_isoYear[OF y] parseRest_fields small ..
  also have "\<dots> = Some (z * 86400000 + (h * 3600000 + mi * 60000 + sec * 1000 + ms))"
    using md hb rng inv c by (simp add: makeTime_def)
  also have "\<dots> = Some t" using sum t by simp
  finally have "isoParse (isoString t) = Some t" .
  moreover have "isoString t \<noteq> []" unfolding str by simp
  ultimately show ?thesis by (simp add: roundTrips_def isoPlatform_def)
qed

lemma stampOk_iso: "validDate d \<Longrightarrow> stampOk isoPlatform d"
  by (cases d rule: validDate.cases) (simp_all add: isoPlatform_roundTrips timeValue_def)

lemma stampsOk_iso: "validStamps r \<Longrightarrow> stampsOk isoPlatform r"
  by (simp add: validStamps_def stampsOk_def stampOk_iso)

lemma load_registryA: "loadActiveTickets isoPlatform (serializeTickets isoPlatform registryA) = registryA"
proof -
  have "stampsOk isoPlatform ticketA"
    by (rule stampsOk_iso) (simp add: validStamps_def ticketA_def timeValue_def)
  moreover have "plain (''1390000000000000001'', ticketA)" by (simp add: plain_def ticketA_def)
  ultimately show ?thesis
    by (simp add: load_serialize registryA_def not_index_long reload_id)
qed

subsection \<open>What every step keeps\<close>

lemma map_of_filter_None: "map_of m k = None \<Longrightarrow> map_of (filter Q m) k = None"
  by (induction m) (auto split: if_splits)

text \<open>
  A property of the module's state that the on-demand load, the save request, the
  completion of a write, the timer, and any change of the registry that puts no record
  under \<open>k\<close> all keep, is kept by every event that does not create or register
  \<open>k\<close> and is not a restart.
\<close>

lemma step_keeps:
  assumes ens: "\<And>w. Q w \<Longrightarrow> Q (ensureTicketsLoaded P w)"
    and sav: "\<And>w. Q w \<Longrightarrow> Q (saveRegistry P w)"
    and reg: "\<And>w reg. Q w \<Longrightarrow> map_of reg k = None \<Longrightarrow> Q (w\<lparr>activeTickets := reg\<rparr>)"
    and perms: "\<And>w p. Q w \<Longrightarrow> Q (w\<lparr>sendMessages := p\<rparr>)"
    and wr: "\<And>w out. Q w \<Longrightarrow> Q (w\<lparr>store := writeCompletes out (store w)\<rparr>)"
    and tm: "\<And>w. Q w \<Longrightarrow> Q (w\<lparr>store := timerFires P (store w)\<rparr>)"
    and lack: "\<And>w. Q w \<Longrightarrow> map_of (activeTickets w) k = None"
    and q: "Q w" and e: "\<not> recreates k e" "e \<noteq> Restart"
  shows "Q (step cfg P w e)"
proof -
  have up: "Q (saveRegistry P (w\<lparr>sendMessages := p, activeTickets := AList.update c t (activeTickets w)\<rparr>))"
    if "Q w" "c \<noteq> k" for w p c t
  proof -
    from that lack[of w] have "map_of (AList.update c t (activeTickets w)) k = None"
      by (simp add: update_conv')
    with perms[OF that(1), of p] have "Q (w\<lparr>sendMessages := p, activeTickets := AList.update c t (activeTickets w)\<rparr>)"
      using reg[of "w\<lparr>sendMessages := p\<rparr>" "AList.update c t (activeTickets w)"] by simp
    then show ?thesis by (rule sav)
  qed
  have up': "Q (saveRegistry P (w\<lparr>activeTickets := AList.update c t (activeTickets w)\<rparr>))"
    if "Q w" "c \<noteq> k" for w c t
    using up[OF that, where p = "sendMessages w" and t = t] by simp
  have known: "channel i \<noteq> k"
    if "Q w" "map_of (activeTickets w) (channel i) = Some r" for w i r
    using lack[OF that(1)] that(2) by auto
  have confirm: "Q (snd (closeTicketConfirmed P w i))" if "Q w" for w i
  proof (cases "map_of (activeTickets (ensureTicketsLoaded P w)) (channel i)")
    case None
    with ens[OF that] show ?thesis by (simp add: closeTicketConfirmed_def)
  next
    case (Some r)
    with ens[OF that] known[OF ens[OF that] Some] show ?thesis
      by (simp add: closeTicketConfirmed_def Let_def up perms)
  qed
  have reopen: "Q (snd (reopenTicket P w i))" if "Q w" for w i
  proof (cases "map_of (activeTickets (ensureTicketsLoaded P w)) (channel i)")
    case None
    with ens[OF that] show ?thesis by (simp add: reopenTicket_def)
  next
    case (Some r)
    with ens[OF that] known[OF ens[OF that] Some] show ?thesis
      by (simp add: reopenTicket_def Let_def up perms)
  qed
  have delete: "Q (snd (deleteTicket P w i))" if "Q w" for w i
  proof (cases "map_of (activeTickets (ensureTicketsLoaded P w)) (channel i)")
    case None
    with ens[OF that] show ?thesis by (simp add: deleteTicket_def)
  next
    case (Some r)
    from lack[OF ens[OF that]]
    have "map_of (AList.delete (channel i) (activeTickets (ensureTicketsLoaded P w))) k = None"
      by (simp add: delete_conv')
    from sav[OF reg[OF ens[OF that] this]] Some show ?thesis
      by (simp add: deleteTicket_def Let_def)
  qed
  have management: "Q (snd (managementButton cfg P w b i))" if "Q w" for w b i
    using ens[OF that] reopen[OF ens[OF that], of i] delete[OF ens[OF that], of i]
    by (simp add: managementButton_def closeTicket_def createTranscript_def Let_def
        split: option.splits)
  have opened: "Q (snd (openChannel cfg P w i t))" if "Q w" "newChannel i \<noteq> k" for w i t
    using that by (simp add: openChannel_def Let_def up)
  have create: "Q (snd (createTicket cfg P w i ty))" if "Q w" "newChannel i \<noteq> k" for w i ty
    using that ens[OF that(1)] by (simp add: createTicket_def Let_def opened split: option.splits)
  have createForm: "Q (snd (createTicketWithFormData cfg P w i ty fd))"
    if "Q w" "newChannel i \<noteq> k" for w i ty fd
    using that ens[OF that(1)]
    by (simp add: createTicketWithFormData_def Let_def opened split: option.splits)
  have register: "Q (snd (registerExistingTicket P w i opts))"
    if "Q w" "(case optChannel opts of Some c \<Rightarrow> c | None \<Rightarrow> channel i) \<noteq> k" for w i opts
    using that ens[OF that(1)]
    by (simp add: registerExistingTicket_def Let_def up' split: option.splits)
  show ?thesis
  proof (cases e)
    case (Button b i)
    show ?thesis
    proof (cases b)
      case (TicketCreate ty)
      with Button e q show ?thesis by (simp add: create)
    qed (use Button q in \<open>simp_all add: management confirm ens closeTicketCancelled_def\<close>)
  next
    case (ModalSubmit i ty fd)
    with e q show ?thesis by (simp add: onModalSubmit_def createForm)
  next
    case (RegisterTicket i opts)
    with e q show ?thesis by (simp add: register)
  next
    case (DeclineReasonSelect i)
    with q show ?thesis by (simp add: ens)
  next
    case (Ready live)
    from lack[OF q] have "map_of (filter (\<lambda>e. fst e \<in> set live) (activeTickets w)) k = None"
      by (rule map_of_filter_None)
    from sav[OF reg[OF q this]] Ready show ?thesis by (simp add: onReady_def)
  next
    case (WriteDone out)
    with q show ?thesis by (simp add: wr)
  next
    case TimerDue
    with q show ?thesis by (simp add: tm)
  next
    case Restart
    with e show ?thesis by simp
  qed
qed
section \<open>C1: the save queue\<close>

text \<open>
  C1, as the code has it. Take any sequence of \<^verbatim>\<open>saveActiveTickets\<close> calls, write
  completions (successful or failed) and timer expiries, from any file. In the state
  reached: at most one write is in flight, so physical writes never interleave; the
  requests started, followed by the queued ones, are the calls in their order, and
  they settle in the order started, so requests run one at a time in enqueue order; a
  promise becomes resolved only in the step that completes that request's write, which
  leaves the serialization of that request's snapshot in the file; and once every
  request has settled, if the promise of the last call was resolved, the file holds the
  serialization of the last snapshot.
\<close>

theorem save_queue_serialized:
  "s = storeRun P d es \<Longrightarrow>
   length (inflight s) \<le> 1
   \<and> started s @ map fst (saveQueue s) = [0..<length (requests s)]
   \<and> map fst (settled s) @ map fst (inflight s) = started s
   \<and> (\<not> resolved s n \<and> resolved (storeStep P s e) n \<longrightarrow>
        e = WriteCompletes Written \<and> inflight s = [(n, serializeTickets P (requests s ! n))]
        \<and> disk (storeStep P s e) = serializeTickets P (requests s ! n))
   \<and> (allSettled s \<and> requests s \<noteq> [] \<and> resolved s (length (requests s) - 1) \<longrightarrow>
        disk s = serializeTickets P (last (requests s)))"
proof -
  assume s: "s = storeRun P d es"
  then have inv: "storeInv P s" by (simp add: storeInv_run)
  from inv have 1: "length (inflight s) \<le> 1"
    by (simp add: storeInv_def invFlight_def split: if_splits)
  from inv have 2: "started s @ map fst (saveQueue s) = [0..<length (requests s)]"
    and 3: "map fst (settled s) @ map fst (inflight s) = started s"
    by (simp_all add: storeInv_def invOrder_def)
  from 1 2 3 resolved_step[OF inv] final_content[OF inv] show ?thesis by blast
qed

text \<open>
  C1 as stated promises the last snapshot in the file once all calls have settled. A
  call whose write fails settles too, by \<^verbatim>\<open>reject(error)\<close> in the \<^verbatim>\<open>catch\<close>: after
  a first save that succeeds and a second whose write fails, every call has settled and
  the file still holds the first snapshot.
\<close>

theorem save_queue_last_rejected_counterexample:
  "allSettled (storeRun isoPlatform NoFile lastSaveFails)
   \<and> requests (storeRun isoPlatform NoFile lastSaveFails) \<noteq> []
   \<and> disk (storeRun isoPlatform NoFile lastSaveFails)
       \<noteq> serializeTickets isoPlatform (last (requests (storeRun isoPlatform NoFile lastSaveFails)))"
  by (simp add: store_defs lastSaveFails_def serialize_registryA serialize_Nil)

text \<open>
  The theorem at two calls: the second promise is resolved by the step that completes
  its write, and after both have settled the file holds the second snapshot.
\<close>

theorem save_queue_serialized_witness:
  "(\<not> resolved (storeRun isoPlatform NoFile twoSaves) 1
    \<and> resolved (storeStep isoPlatform (storeRun isoPlatform NoFile twoSaves) (WriteCompletes Written)) 1
    \<and> disk (storeStep isoPlatform (storeRun isoPlatform NoFile twoSaves) (WriteCompletes Written))
        = serializeTickets isoPlatform registryA)
   \<and> (allSettled (storeRun isoPlatform NoFile twoSavesDone)
      \<and> requests (storeRun isoPlatform NoFile twoSavesDone) \<noteq> []
      \<and> resolved (storeRun isoPlatform NoFile twoSavesDone) 1
      \<and> disk (storeRun isoPlatform NoFile twoSavesDone) = serializeTickets isoPlatform registryA)"
proof -
  have a: "\<not> resolved (storeRun isoPlatform NoFile twoSaves) 1"
    by (simp add: store_defs twoSaves_def)
  have b: "resolved (storeStep isoPlatform (storeRun isoPlatform NoFile twoSaves) (WriteCompletes Written)) 1"
    by (simp add: store_defs twoSaves_def)
  have r: "requests (storeRun isoPlatform NoFile twoSaves) ! 1 = registryA"
    by (simp add: store_defs twoSaves_def)
  have c: "allSettled (storeRun isoPlatform NoFile twoSavesDone)"
    by (simp add: store_defs twoSaves_def twoSavesDone_def)
  have d: "requests (storeRun isoPlatform NoFile twoSavesDone) = [[], registryA]"
    by (simp add: store_defs twoSaves_def twoSavesDone_def)
  have e: "resolved (storeRun isoPlatform NoFile twoSavesDone) 1"
    by (simp add: store_defs twoSaves_def twoSavesDone_def)
  from a b r c d e
    save_queue_serialized[of "storeRun isoPlatform NoFile twoSaves" isoPlatform NoFile twoSaves
      1 "WriteCompletes Written"]
    save_queue_serialized[of "storeRun isoPlatform NoFile twoSavesDone" isoPlatform NoFile
      twoSavesDone 1 "WriteCompletes Written"]
  show ?thesis by simp
qed

section \<open>C2: close request, confirmation, reopening\<close>

lemma close_confirm_reopen_core:
  assumes r: "map_of (activeTickets (ensureTicketsLoaded P w)) k = Some r"
    and ch: "channel i1 = k" "channel i2 = k" "channel i3 = k"
    and staff: "isStaff cfg i1 r" "isStaff cfg i3 r"
    and ok2: "succeeds i2 PermissionsEdit" "succeeds i2 ChannelSend"
    and ok3: "succeeds i3 PermissionsEdit" "succeeds i3 ChannelSend"
    and w1: "w1 = snd (onButton cfg P w TicketClose i1)"
    and w2: "w2 = snd (onButton cfg P w1 TicketCloseConfirm i2)"
    and w3: "w3 = snd (onButton cfg P w2 TicketReopen i3)"
    and r3: "r3 = r\<lparr>closed := Some False, closedAt := Some (DateMs (now i2)),
                     closedBy := Some (user i2), reopenedAt := Some (DateMs (now i3)),
                     reopenedBy := Some (user i3)\<rparr>"
  shows "fst (onButton cfg P w TicketClose i1) = ConfirmPrompt
         \<and> fst (onButton cfg P w1 TicketCloseConfirm i2) = TicketClosed
         \<and> fst (onButton cfg P w2 TicketReopen i3) = TicketReopened
         \<and> map_of (activeTickets w3) k = Some r3"
proof -
  let ?r2 = "r\<lparr>closed := Some True, closedAt := Some (DateMs (now i2)), closedBy := Some (user i2)\<rparr>"
  have a: "fst (onButton cfg P w TicketClose i1) = ConfirmPrompt" and w1': "w1 = ensureTicketsLoaded P w"
    using r ch(1) staff(1) w1 by (simp_all add: management_close)
  have r1: "map_of (activeTickets (ensureTicketsLoaded P w1)) (channel i2) = Some r"
    using r ch(2) w1' by simp
  from confirm_closes[OF r1 ok2] w2 ch(2)
  have b: "fst (onButton cfg P w1 TicketCloseConfirm i2) = TicketClosed"
    and l2: "ticketsLoaded w2" and m2: "map_of (activeTickets w2) k = Some ?r2"
    by simp_all
  have r2: "map_of (activeTickets (ensureTicketsLoaded P w2)) (channel i3) = Some ?r2"
    using l2 m2 ch(3) by simp
  have s3: "isStaff cfg i3 ?r2" using staff(2) by (simp add: isStaff_def)
  from management_reopen[OF r2 s3] reopen_reopens[OF r2 ok3] w3 ch(3) r3
  have c: "fst (onButton cfg P w2 TicketReopen i3) = TicketReopened"
    and m3: "map_of (activeTickets w3) k = Some r3"
    by simp_all
  from a b c m3 show ?thesis by simp
qed

lemma sample_close_confirm_reopen:
  "map_of (activeTickets (closeConfirmReopen t2 t3)) ''1390000000000000001''
     = Some (ticketA\<lparr>closed := Some False, closedAt := Some (DateMs t2), closedBy := Some carol,
                     reopenedAt := Some (DateMs t3), reopenedBy := Some carol\<rparr>)"
proof -
  let ?k = "''1390000000000000001''"
  let ?i1 = "pressStaff ?k carol 1751825400000" and ?i2 = "pressStaff ?k carol t2"
    and ?i3 = "pressStaff ?k carol t3"
  have r: "map_of (activeTickets (ensureTicketsLoaded isoPlatform (worldOf registryA))) ?k = Some ticketA"
    by (simp add: worldOf_def registryA_def)
  have s: "isStaff cfgDefault ?i1 ticketA" "isStaff cfgDefault ?i3 ticketA"
    by (simp_all add: isStaff_def pressStaff_def press_def ticketA_def getTicketRoles_def
        rolesOfType_def cfgDefault_def newSet_def setAdd_def)
  have ok: "succeeds ?i2 PermissionsEdit" "succeeds ?i2 ChannelSend"
    "succeeds ?i3 PermissionsEdit" "succeeds ?i3 ChannelSend"
    by (simp_all add: succeeds_def pressStaff_def press_def)
  have ch: "channel ?i1 = ?k" "channel ?i2 = ?k" "channel ?i3 = ?k"
    by (simp_all add: pressStaff_def press_def)
  from close_confirm_reopen_core[OF r ch s ok refl refl refl refl]
  show ?thesis by (simp add: closeConfirmReopen_def pressStaff_def press_def)
qed

text \<open>
  C2, as the code has it. Let a channel have a record \<open>r\<close>. A staff member
  requests the close, someone confirms, a staff member reopens, and the permission edit
  and the message to the channel succeed in the last two. Then the three handlers
  answer with the prompt, the closed notice and the reopened notice, and the record is
  \<open>r\<close> with \<^verbatim>\<open>closed = false\<close>, \<^verbatim>\<open>closedAt\<close> the time read at the
  confirmation, \<^verbatim>\<open>closedBy\<close> the confirming user, \<^verbatim>\<open>reopenedAt\<close> the time read
  at the reopening and \<^verbatim>\<open>reopenedBy\<close> the reopening user. \<^verbatim>\<open>reopenedAt\<close> is
  later than \<^verbatim>\<open>closedAt\<close> exactly when the clock read at the reopening is later
  than the one read at the confirmation: both are \<^verbatim>\<open>new Date()\<close>, and no handler
  compares them.
\<close>

theorem close_confirm_reopen:
  assumes r: "map_of (activeTickets (ensureTicketsLoaded P w)) k = Some r"
    and ch: "channel i1 = k" "channel i2 = k" "channel i3 = k"
    and staff: "isStaff cfg i1 r" "isStaff cfg i3 r"
    and ok2: "succeeds i2 PermissionsEdit" "succeeds i2 ChannelSend"
    and ok3: "succeeds i3 PermissionsEdit" "succeeds i3 ChannelSend"
    and w1: "w1 = snd (onButton cfg P w TicketClose i1)"
    and w2: "w2 = snd (onButton cfg P w1 TicketCloseConfirm i2)"
    and w3: "w3 = snd (onButton cfg P w2 TicketReopen i3)"
    and r3: "r3 = r\<lparr>closed := Some False, closedAt := Some (DateMs (now i2)),
                     closedBy := Some (user i2), reopenedAt := Some (DateMs (now i3)),
                     reopenedBy := Some (user i3)\<rparr>"
  shows "fst (onButton cfg P w TicketClose i1) = ConfirmPrompt
         \<and> fst (onButton cfg P w1 TicketCloseConfirm i2) = TicketClosed
         \<and> fst (onButton cfg P w2 TicketReopen i3) = TicketReopened
         \<and> map_of (activeTickets w3) k = Some r3
         \<and> closed r3 = Some False
         \<and> closedAt r3 = Some (DateMs (now i2)) \<and> closedBy r3 = Some (user i2)
         \<and> reopenedAt r3 = Some (DateMs (now i3)) \<and> reopenedBy r3 = Some (user i3)
         \<and> (laterThan (reopenedAt r3) (closedAt r3) \<longleftrightarrow> now i2 < now i3)"
  using close_confirm_reopen_core[OF assms] r3 by (simp add: laterThan_def)

text \<open>
  C2 as stated has \<^verbatim>\<open>reopenedAt\<close> strictly greater than \<^verbatim>\<open>closedAt\<close> after
  every such sequence. When the two handlers read the same millisecond the two fields
  are equal.
\<close>

theorem reopen_in_same_millisecond_counterexample:
  "map_option (\<lambda>r. (closed r, closedAt r, reopenedAt r))
     (map_of (activeTickets (closeConfirmReopen 1751825460000 1751825460000)) ''1390000000000000001'')
     = Some (Some False, Some (DateMs 1751825460000), Some (DateMs 1751825460000))
   \<and> \<not> laterThan (Some (DateMs 1751825460000)) (Some (DateMs 1751825460000))"
  by (simp add: sample_close_confirm_reopen laterThan_def)

text \<open>
  The theorem at a ticket closed by a staff member and reopened an hour later.
\<close>

theorem close_confirm_reopen_witness:
  "map_of (activeTickets (closeConfirmReopen 1751825460000 1751829060000)) ''1390000000000000001''
     = Some (ticketA\<lparr>closed := Some False, closedAt := Some (DateMs 1751825460000),
                     closedBy := Some carol, reopenedAt := Some (DateMs 1751829060000),
                     reopenedBy := Some carol\<rparr>)
   \<and> laterThan (Some (DateMs 1751829060000)) (Some (DateMs 1751825460000))"
proof -
  let ?k = "''1390000000000000001''"
  let ?i1 = "pressStaff ?k carol 1751825400000" and ?i2 = "pressStaff ?k carol 1751825460000"
    and ?i3 = "pressStaff ?k carol 1751829060000"
  have r: "map_of (activeTickets (ensureTicketsLoaded isoPlatform (worldOf registryA))) ?k = Some ticketA"
    by (simp add: worldOf_def registryA_def)
  have s: "isStaff cfgDefault ?i1 ticketA" "isStaff cfgDefault ?i3 ticketA"
    by (simp_all add: isStaff_def pressStaff_def press_def ticketA_def getTicketRoles_def
        rolesOfType_def cfgDefault_def newSet_def setAdd_def)
  have ok: "succeeds ?i2 PermissionsEdit" "succeeds ?i2 ChannelSend"
    "succeeds ?i3 PermissionsEdit" "succeeds ?i3 ChannelSend"
    by (simp_all add: succeeds_def pressStaff_def press_def)
  have ch: "channel ?i1 = ?k" "channel ?i2 = ?k" "channel ?i3 = ?k"
    by (simp_all add: pressStaff_def press_def)
  from close_confirm_reopen[OF r ch s ok refl refl refl refl]
  show ?thesis by (simp add: closeConfirmReopen_def pressStaff_def press_def)
qed

section \<open>C3: who may confirm, reopen and delete\<close>

text \<open>
  The staff check of the router covers \<^verbatim>\<open>ticket_close\<close>, \<^verbatim>\<open>ticket_delete\<close>
  and \<^verbatim>\<open>ticket_reopen\<close>: an actor who is neither administrator nor in a staff
  role of the ticket's type is refused, and nothing changes but the on-demand load.
  \<^verbatim>\<open>ticket_close_confirm\<close> goes to \<^verbatim>\<open>closeTicketConfirmed\<close> with no check at
  all, so whoever presses the button of the prompt closes the ticket.
\<close>

lemma reopen_delete_denied:
  assumes "map_of (activeTickets (ensureTicketsLoaded P w)) (channel i) = Some r"
    and "\<not> isStaff cfg i r"
  shows "onButton cfg P w TicketReopen i = (StaffOnly, ensureTicketsLoaded P w)
         \<and> onButton cfg P w TicketDelete i = (StaffOnly, ensureTicketsLoaded P w)
         \<and> onButton cfg P w TicketClose i = (StaffOnly, ensureTicketsLoaded P w)"
  using assms by (simp add: management_denied)

lemma confirm_not_gated:
  assumes "map_of (activeTickets (ensureTicketsLoaded P w)) (channel i) = Some r"
    and "succeeds i PermissionsEdit" and "succeeds i ChannelSend"
  shows "fst (onButton cfg P w TicketCloseConfirm i) = TicketClosed
         \<and> map_of (activeTickets (snd (onButton cfg P w TicketCloseConfirm i))) (channel i)
             = Some (r\<lparr>closed := Some True, closedAt := Some (DateMs (now i)),
                        closedBy := Some (user i)\<rparr>)"
  using confirm_closes[OF assms] by simp

text \<open>
  C3 at the requester of a ticket, who is not staff: a reopen and a delete by the
  requester are refused with "Only staff members can close, delete, or reopen tickets."
  and leave the state as it is, while a confirmation by the requester closes the ticket
  and records the requester as \<^verbatim>\<open>closedBy\<close>. C3 as stated has the confirmation
  refused and the record unchanged.
\<close>

theorem confirm_by_requester_closes:
  "\<not> administrator (press ''1390000000000000001'' alice 1751825460000)
   \<and> \<not> isStaff cfgDefault (press ''1390000000000000001'' alice 1751825460000) ticketA
   \<and> map_of (activeTickets (worldOf registryA)) ''1390000000000000001'' = Some ticketA
   \<and> onButton cfgDefault isoPlatform (worldOf registryA) TicketReopen
        (press ''1390000000000000001'' alice 1751825460000) = (StaffOnly, worldOf registryA)
   \<and> onButton cfgDefault isoPlatform (worldOf registryA) TicketDelete
        (press ''1390000000000000001'' alice 1751825460000) = (StaffOnly, worldOf registryA)
   \<and> fst (onButton cfgDefault isoPlatform (worldOf registryA) TicketCloseConfirm
            (press ''1390000000000000001'' alice 1751825460000)) = TicketClosed
   \<and> map_of (activeTickets (snd (onButton cfgDefault isoPlatform (worldOf registryA)
                                    TicketCloseConfirm
                                    (press ''1390000000000000001'' alice 1751825460000))))
        ''1390000000000000001''
      = Some (ticketA\<lparr>closed := Some True, closedAt := Some (DateMs 1751825460000),
                      closedBy := Some alice\<rparr>)"
proof -
  let ?i = "press ''1390000000000000001'' alice 1751825460000"
  have r: "map_of (activeTickets (ensureTicketsLoaded isoPlatform (worldOf registryA))) (channel ?i)
           = Some ticketA"
    by (simp add: worldOf_def registryA_def press_def)
  have n: "\<not> isStaff cfgDefault ?i ticketA"
    by (simp add: isStaff_def press_def list_ex_iff)
  have ok: "succeeds ?i PermissionsEdit" "succeeds ?i ChannelSend"
    by (simp_all add: succeeds_def press_def)
  have l: "ticketsLoaded (worldOf registryA)" by (simp add: worldOf_def)
  from reopen_delete_denied[OF r n] confirm_not_gated[OF r ok, of cfgDefault] r n l
  show ?thesis by (simp add: press_def)
qed

section \<open>C4: the quota\<close>




section \<open>C5: deletion\<close>

subsection \<open>The order of the requests in the save queue\<close>

lemma upt_prefix: "xs @ ys = [0..<N] \<Longrightarrow> xs = [0..<length xs] \<and> ys = [length xs..<N]"
proof -
  assume a: "xs @ ys = [0..<N]"
  then have "length (xs @ ys) = N" by simp
  then have l: "length xs \<le> N" by simp
  have "xs = take (length xs) (xs @ ys)" by simp
  also have "\<dots> = [0..<length xs]" using l by (simp only: a take_upt) simp
  finally have x: "xs = [0..<length xs]" .
  have "ys = drop (length xs) (xs @ ys)" by simp
  also have "\<dots> = [length xs..<N]" by (simp only: a drop_upt) simp
  finally show ?thesis using x by simp
qed

lemma order_facts:
  assumes "storeInv P s"
  shows "map fst (settled s) = [0..<length (settled s)]"
    and "map fst (inflight s) = [length (settled s)..<length (started s)]"
    and "map fst (saveQueue s) = [length (started s)..<length (requests s)]"
proof -
  from assms have a: "map fst (settled s) @ map fst (inflight s) = started s"
    and b: "started s @ map fst (saveQueue s) = [0..<length (requests s)]"
    by (simp_all add: storeInv_def invOrder_def)
  from upt_prefix[OF b] have st: "started s = [0..<length (started s)]"
    and q: "map fst (saveQueue s) = [length (started s)..<length (requests s)]" by simp_all
  from a st have "map fst (settled s) @ map fst (inflight s) = [0..<length (started s)]" by simp
  from upt_prefix[OF this] q
  show "map fst (settled s) = [0..<length (settled s)]"
    and "map fst (inflight s) = [length (settled s)..<length (started s)]"
    and "map fst (saveQueue s) = [length (started s)..<length (requests s)]"
    by simp_all
qed

lemma order_lengths:
  assumes "storeInv P s"
  shows "length (settled s) \<le> length (started s)" "length (started s) \<le> length (requests s)"
proof -
  from assms have a: "map fst (settled s) @ map fst (inflight s) = started s"
    and b: "started s @ map fst (saveQueue s) = [0..<length (requests s)]"
    by (simp_all add: storeInv_def invOrder_def)
  from arg_cong[OF a, of length] show "length (settled s) \<le> length (started s)" by simp
  from arg_cong[OF b, of length] show "length (started s) \<le> length (requests s)" by simp
qed

lemma settled_index: "storeInv P s \<Longrightarrow> (j, b) \<in> set (settled s) \<Longrightarrow> j < length (settled s)"
proof -
  assume inv: "storeInv P s" and "(j, b) \<in> set (settled s)"
  then have "j \<in> set (map fst (settled s))" by force
  with order_facts(1)[OF inv] show ?thesis by (metis atLeastLessThan_iff set_upt)
qed

lemma inflight_index: "storeInv P s \<Longrightarrow> (j, c) \<in> set (inflight s) \<Longrightarrow> length (settled s) \<le> j"
proof -
  assume inv: "storeInv P s" and "(j, c) \<in> set (inflight s)"
  then have "j \<in> set (map fst (inflight s))" by force
  with order_facts(2)[OF inv] show ?thesis by (metis atLeastLessThan_iff set_upt)
qed

lemma queue_index: "storeInv P s \<Longrightarrow> (j, t) \<in> set (saveQueue s) \<Longrightarrow> length (settled s) \<le> j"
proof -
  assume inv: "storeInv P s" and "(j, t) \<in> set (saveQueue s)"
  then have "j \<in> set (map fst (saveQueue s))" by force
  with order_facts(3)[OF inv] have "length (started s) \<le> j" by (metis atLeastLessThan_iff set_upt)
  with order_lengths(1)[OF inv] show ?thesis by simp
qed

subsection \<open>Files and snapshots without the record\<close>

lemma not_onFile_serialize: "map_of t k = None \<Longrightarrow> \<not> onFile P (serializeTickets P t) k"
  by (simp add: onFile_def map_of_load_serialize_None)

lemma not_onFile_damaged: "\<not> onFile P f k \<Longrightarrow> \<not> onFile P (damaged d f) k"
  by (cases d) (simp_all add: onFile_def)

lemma settled_save [simp]: "settled (saveActiveTickets P t s) = settled s"
  by (simp add: saveActiveTickets_def Let_def processNextSave_def split: list.splits)

lemma disk_save [simp]: "disk (saveActiveTickets P t s) = disk s"
  by (simp add: saveActiveTickets_def Let_def processNextSave_def split: list.splits)

lemma cleanStore_process: "cleanStore P k s \<Longrightarrow> cleanStore P k (processNextSave P s)"
  by (cases "saveQueue s") (simp_all add: cleanStore_def processNextSave_def not_onFile_serialize)

lemma cleanStore_save:
  "cleanStore P k s \<Longrightarrow> map_of t k = None \<Longrightarrow> cleanStore P k (saveActiveTickets P t s)"
proof -
  assume a: "cleanStore P k s" and t: "map_of t k = None"
  let ?s1 = "s\<lparr>saveQueue := saveQueue s @ [(length (requests s), t)], requests := requests s @ [t]\<rparr>"
  from a t have 1: "cleanStore P k ?s1" by (simp add: cleanStore_def)
  then have "cleanStore P k (processNextSave P ?s1)" by (rule cleanStore_process)
  with 1 show ?thesis by (simp add: saveActiveTickets_def Let_def)
qed

lemma cleanStore_write: "cleanStore P k s \<Longrightarrow> cleanStore P k (writeCompletes out s)"
  by (cases "inflight s"; cases out) (simp_all add: cleanStore_def writeCompletes_def)

lemma cleanStore_timer: "cleanStore P k s \<Longrightarrow> cleanStore P k (timerFires P s)"
proof -
  assume a: "cleanStore P k s"
  then have "cleanStore P k (s\<lparr>timers := timers s - 1\<rparr>)" by (simp add: cleanStore_def)
  then have "cleanStore P k (processNextSave P (s\<lparr>timers := timers s - 1\<rparr>))"
    by (rule cleanStore_process)
  with a show ?thesis by (simp add: timerFires_def)
qed

lemma disk_write:
  "cleanStore P k s \<Longrightarrow> \<not> onFile P (disk s) k \<Longrightarrow> \<not> onFile P (disk (writeCompletes out s)) k"
  by (cases "inflight s"; cases out)
     (simp_all add: cleanStore_def writeCompletes_def not_onFile_damaged)

lemma disk_timer [simp]: "disk (timerFires P s) = disk s"
  by (simp add: timerFires_def processNextSave_def split: list.splits)

subsection \<open>Once gone for good, gone for good\<close>

lemma forGood_boot: "\<not> onFile P d k \<Longrightarrow> goneForGood P k (boot P d perms)"
  by (simp add: goneForGood_def boot_def initStore_def cleanStore_def onFile_def)

lemma forGood_step:
  assumes "goneForGood P k w" "\<not> recreates k e"
  shows "goneForGood P k (step cfg P w e)"
proof (cases "e = Restart")
  case True
  from assms(1) have "\<not> onFile P (disk (store w)) k" by (simp add: goneForGood_def)
  from forGood_boot[OF this] True show ?thesis by simp
next
  case False
  show ?thesis
  proof (rule step_keeps[where Q = "goneForGood P k", OF _ _ _ _ _ _ _ assms False])
    show "goneForGood P k (ensureTicketsLoaded P w)" if "goneForGood P k w" for w
      using that by (simp add: goneForGood_def ensureTicketsLoaded_def onFile_def)
    show "goneForGood P k (saveRegistry P w)" if "goneForGood P k w" for w
      using that by (simp add: goneForGood_def saveRegistry_def cleanStore_save)
    show "goneForGood P k (w\<lparr>activeTickets := reg\<rparr>)"
      if "goneForGood P k w" "map_of reg k = None" for w reg
      using that by (simp add: goneForGood_def)
    show "goneForGood P k (w\<lparr>sendMessages := p\<rparr>)" if "goneForGood P k w" for w p
      using that by (simp add: goneForGood_def)
    show "goneForGood P k (w\<lparr>store := writeCompletes out (store w)\<rparr>)"
      if "goneForGood P k w" for w out
      using that by (simp add: goneForGood_def cleanStore_write disk_write)
    show "goneForGood P k (w\<lparr>store := timerFires P (store w)\<rparr>)" if "goneForGood P k w" for w
      using that by (simp add: goneForGood_def cleanStore_timer)
    show "map_of (activeTickets w) k = None" if "goneForGood P k w" for w
      using that by (simp add: goneForGood_def)
  qed
qed

lemma forGood_run:
  "goneForGood P k w \<Longrightarrow> list_all (\<lambda>e. \<not> recreates k e) es \<Longrightarrow> goneForGood P k (run cfg P w es)"
  unfolding run_def by (induction es arbitrary: w) (simp_all add: forGood_step)

subsection \<open>Gone from a loaded registry\<close>

lemma loaded_step:
  assumes "ticketsLoaded w \<and> map_of (activeTickets w) k = None" "\<not> recreates k e" "e \<noteq> Restart"
  shows "ticketsLoaded (step cfg P w e) \<and> map_of (activeTickets (step cfg P w e)) k = None"
  by (rule step_keeps[where Q = "\<lambda>w. ticketsLoaded w \<and> map_of (activeTickets w) k = None",
        OF _ _ _ _ _ _ _ assms])
     (simp_all add: saveRegistry_def)

lemma gone_step:
  assumes "gone P k w" "\<not> recreates k e" "e = Restart \<longrightarrow> \<not> onFile P (disk (store w)) k"
  shows "gone P k (step cfg P w e)"
proof (cases "goneForGood P k w")
  case True
  from forGood_step[OF True assms(2), of cfg] show ?thesis by (simp add: gone_def goneForGood_def)
next
  case False
  with assms(1) have l: "ticketsLoaded w \<and> map_of (activeTickets w) k = None"
    by (simp add: gone_def)
  show ?thesis
  proof (cases "e = Restart")
    case True
    with assms(3) forGood_boot[of P "disk (store w)" k "sendMessages w"] show ?thesis
      by (simp add: gone_def goneForGood_def)
  next
    case False
    from loaded_step[OF l assms(2) False, of cfg P] show ?thesis by (simp add: gone_def)
  qed
qed

lemma gone_run: "gone P k w \<Longrightarrow> undisturbed cfg P k w es \<Longrightarrow> gone P k (run cfg P w es)"
  unfolding run_def by (induction es arbitrary: w) (simp_all add: gone_step)

lemma gone_lookup: "gone P k w \<Longrightarrow> map_of (activeTickets (ensureTicketsLoaded P w)) k = None"
  by (auto simp: gone_def goneForGood_def ensureTicketsLoaded_def onFile_def)

subsection \<open>The save of the delete and the saves after it\<close>

lemma nth_in_drop: "n \<le> j \<Longrightarrow> j < length xs \<Longrightarrow> xs ! j \<in> set (drop n xs)"
proof -
  assume a: "n \<le> j" "j < length xs"
  then have "drop n xs ! (j - n) = xs ! j" by simp
  moreover from a have "j - n < length (drop n xs)" by simp
  ultimately show ?thesis by (metis nth_mem)
qed

lemma pending_init:
  assumes "storeInv P s" "map_of t k = None"
  shows "pending P k (length (requests s)) (saveActiveTickets P t s)"
proof -
  from storeInv_step[OF assms(1), of "Save t"] have inv: "storeInv P (saveActiveTickets P t s)" by simp
  have "\<not> list_ex (\<lambda>x. length (requests s) \<le> fst x \<and> snd x) (settled s)"
  proof
    assume "list_ex (\<lambda>x. length (requests s) \<le> fst x \<and> snd x) (settled s)"
    then obtain j b where "(j, b) \<in> set (settled s)" "length (requests s) \<le> j"
      by (auto simp: list_ex_iff)
    with settled_index[OF assms(1), of j b] order_lengths[OF assms(1)] show False by simp
  qed
  with inv assms(2) show ?thesis by (simp add: pending_def requests_save)
qed

lemma pending_save:
  assumes "pending P k n s" "map_of t k = None"
  shows "pending P k n (saveActiveTickets P t s)"
proof -
  from assms(1) have inv: "storeInv P s" by (simp add: pending_def)
  from storeInv_step[OF inv, of "Save t"] have "storeInv P (saveActiveTickets P t s)" by simp
  with assms show ?thesis by (simp add: pending_def requests_save)
qed

lemma pending_timer: "pending P k n s \<Longrightarrow> pending P k n (timerFires P s)"
proof -
  assume a: "pending P k n s"
  then have inv: "storeInv P s" by (simp add: pending_def)
  from storeInv_step[OF inv, of TimerFires] have "storeInv P (timerFires P s)" by simp
  moreover have "requests (timerFires P s) = requests s" "settled (timerFires P s) = settled s"
    by (simp_all add: timerFires_def processNextSave_def split: list.splits)
  ultimately show ?thesis using a by (simp add: pending_def)
qed

lemma pending_write:
  assumes "pending P k n s"
  shows "pending P k n (writeCompletes out s)"
proof (cases "inflight s")
  case Nil
  with assms show ?thesis by (simp add: writeCompletes_def)
next
  case (Cons x rest)
  from assms have inv: "storeInv P s" and n: "n < length (requests s)"
    and lack: "list_all (\<lambda>t. map_of t k = None) (drop n (requests s))"
    and fl: "list_ex (\<lambda>x. n \<le> fst x \<and> snd x) (settled s) \<longrightarrow> \<not> onFile P (disk s) k"
    by (simp_all add: pending_def)
  from storeInv_step[OF inv, of "WriteCompletes out"]
  have inv': "storeInv P (writeCompletes out s)" by simp
  have req: "requests (writeCompletes out s) = requests s"
    using Cons by (cases out) (simp_all add: writeCompletes_def)
  from inv Cons have c: "fst x < length (requests s)" "snd x = serializeTickets P (requests s ! fst x)"
    by (simp_all add: storeInv_def invContent_def carries_def)
  have old: "\<not> list_ex (\<lambda>y. n \<le> fst y \<and> snd y) (settled s)" if "fst x < n"
  proof
    assume "list_ex (\<lambda>y. n \<le> fst y \<and> snd y) (settled s)"
    then obtain j b where j: "(j, b) \<in> set (settled s)" "n \<le> j" by (auto simp: list_ex_iff)
    from inflight_index[OF inv, of "fst x" "snd x"] Cons have "length (settled s) \<le> fst x" by simp
    with settled_index[OF inv j(1)] j(2) that show False by simp
  qed
  have new: "\<not> onFile P (snd x) k" if "n \<le> fst x"
  proof -
    from that c(1) have "requests s ! fst x \<in> set (drop n (requests s))"
      by (rule nth_in_drop)
    with lack have "map_of (requests s ! fst x) k = None" by (simp add: list_all_iff)
    with c(2) show ?thesis by (simp add: not_onFile_serialize)
  qed
  show ?thesis
  proof (cases out)
    case Written
    with Cons have st: "settled (writeCompletes out s) = settled s @ [(fst x, True)]"
      "disk (writeCompletes out s) = snd x"
      by (simp_all add: writeCompletes_def)
    have "\<not> onFile P (snd x) k" if "list_ex (\<lambda>y. n \<le> fst y \<and> snd y) (settled s @ [(fst x, True)])"
    proof (cases "n \<le> fst x")
      case True
      then show ?thesis by (rule new)
    next
      case False
      with old that show ?thesis by simp
    qed
    with inv' req n lack st show ?thesis by (simp add: pending_def)
  next
    case (WriteFailed dmg)
    with Cons have st: "settled (writeCompletes out s) = settled s @ [(fst x, False)]"
      "disk (writeCompletes out s) = damaged dmg (disk s)"
      by (simp_all add: writeCompletes_def)
    with inv' req n lack fl show ?thesis by (simp add: pending_def not_onFile_damaged)
  qed
qed

lemma pending_clean:
  assumes "pending P k n s" "resolved s n"
  shows "\<not> onFile P (disk s) k \<and> cleanStore P k s"
proof -
  from assms(1) have inv: "storeInv P s"
    and lack: "list_all (\<lambda>t. map_of t k = None) (drop n (requests s))"
    and fl: "list_ex (\<lambda>x. n \<le> fst x \<and> snd x) (settled s) \<longrightarrow> \<not> onFile P (disk s) k"
    by (simp_all add: pending_def)
  from assms(2) have r: "(n, True) \<in> set (settled s)" by (simp add: resolved_def)
  then have "list_ex (\<lambda>x. n \<le> fst x \<and> snd x) (settled s)" by (force simp: list_ex_iff)
  with fl have f: "\<not> onFile P (disk s) k" by simp
  from settled_index[OF inv r] have n: "n < length (settled s)" .
  have later: "map_of (requests s ! j) k = None" if "n \<le> j" "j < length (requests s)" for j
  proof -
    from that have "requests s ! j \<in> set (drop n (requests s))"
      by (rule nth_in_drop)
    with lack show ?thesis by (simp add: list_all_iff)
  qed
  have q: "map_of (snd e) k = None" if "e \<in> set (saveQueue s)" for e
  proof -
    from inv that have h: "fst e < length (requests s)" "snd e = requests s ! fst e"
      by (simp_all add: storeInv_def invContent_def list_all_iff holds_def)
    from queue_index[OF inv, of "fst e" "snd e"] that n have "n \<le> fst e" by simp
    with later[OF this h(1)] h(2) show ?thesis by simp
  qed
  have i: "\<not> onFile P (snd x) k" if "x \<in> set (inflight s)" for x
  proof -
    from inv that have h: "fst x < length (requests s)" "snd x = serializeTickets P (requests s ! fst x)"
      by (simp_all add: storeInv_def invContent_def list_all_iff carries_def)
    from inflight_index[OF inv, of "fst x" "snd x"] that n have "n \<le> fst x" by simp
    with later[OF this h(1)] h(2) show ?thesis by (simp add: not_onFile_serialize)
  qed
  from f q i show ?thesis by (simp add: cleanStore_def list_all_iff)
qed

lemma awaiting_step:
  assumes "ticketsLoaded w \<and> map_of (activeTickets w) k = None \<and> pending P k n (store w)"
    and "\<not> recreates k e" "e \<noteq> Restart"
  shows "ticketsLoaded (step cfg P w e) \<and> map_of (activeTickets (step cfg P w e)) k = None
         \<and> pending P k n (store (step cfg P w e))"
  by (rule step_keeps[where Q = "\<lambda>w. ticketsLoaded w \<and> map_of (activeTickets w) k = None
          \<and> pending P k n (store w)", OF _ _ _ _ _ _ _ assms])
     (simp_all add: saveRegistry_def pending_save pending_write pending_timer)

lemma awaiting_run:
  "ticketsLoaded w \<and> map_of (activeTickets w) k = None \<and> pending P k n (store w) \<Longrightarrow>
   list_all (\<lambda>e. \<not> recreates k e \<and> e \<noteq> Restart) es \<Longrightarrow>
   ticketsLoaded (run cfg P w es) \<and> map_of (activeTickets (run cfg P w es)) k = None
   \<and> pending P k n (store (run cfg P w es))"
  unfolding run_def
proof (induction es arbitrary: w)
  case Nil
  then show ?case by simp
next
  case (Cons e es)
  from Cons.prems awaiting_step[of w k P n e cfg]
  have "ticketsLoaded (step cfg P w e) \<and> map_of (activeTickets (step cfg P w e)) k = None
        \<and> pending P k n (store (step cfg P w e))" by simp
  from Cons.IH[OF this] Cons.prems(2) show ?case by simp
qed

text \<open>The save queue is in order in every state the module reaches.\<close>

lemma storeInv_save: "storeInv P s \<Longrightarrow> storeInv P (saveActiveTickets P t s)"
  using storeInv_step[of P s "Save t"] by simp

lemma storeInv_world_step: "storeInv P (store w) \<Longrightarrow> storeInv P (store (step cfg P w e))"
proof (cases e)
  case (Button b i)
  assume a: "storeInv P (store w)"
  show ?thesis
  proof (cases b)
    case TicketCloseConfirm
    with Button a show ?thesis
      by (simp add: closeTicketConfirmed_def Let_def saveRegistry_def storeInv_save
          split: option.splits)
  next
    case (TicketCreate ty)
    with Button a show ?thesis
      by (simp add: createTicket_def openChannel_def Let_def saveRegistry_def storeInv_save
          split: option.splits)
  next
    case TicketDelete
    with Button a show ?thesis
      by (simp add: managementButton_def deleteTicket_def Let_def saveRegistry_def storeInv_save
          split: option.splits)
  next
    case TicketReopen
    with Button a show ?thesis
      by (simp add: managementButton_def reopenTicket_def Let_def saveRegistry_def storeInv_save
          split: option.splits)
  qed (use Button a in \<open>simp_all add: managementButton_def closeTicket_def createTranscript_def
         closeTicketCancelled_def Let_def split: option.splits\<close>)
next
  case (ModalSubmit i ty fd)
  assume "storeInv P (store w)"
  with ModalSubmit show ?thesis
    by (simp add: onModalSubmit_def createTicketWithFormData_def openChannel_def Let_def
        saveRegistry_def storeInv_save split: option.splits)
next
  case (RegisterTicket i opts)
  assume "storeInv P (store w)"
  with RegisterTicket show ?thesis
    by (simp add: registerExistingTicket_def Let_def saveRegistry_def storeInv_save
        split: option.splits)
next
  case (DeclineReasonSelect i)
  assume "storeInv P (store w)"
  with DeclineReasonSelect show ?thesis by simp
next
  case (Ready live)
  assume "storeInv P (store w)"
  with Ready show ?thesis by (simp add: onReady_def saveRegistry_def storeInv_save)
next
  case (WriteDone out)
  assume "storeInv P (store w)"
  with WriteDone storeInv_step[of P "store w" "WriteCompletes out"] show ?thesis by simp
next
  case TimerDue
  assume "storeInv P (store w)"
  with TimerDue storeInv_step[of P "store w" TimerFires] show ?thesis by simp
next
  case Restart
  then show ?thesis by (simp add: boot_def storeInv_init)
qed

lemma storeInv_world: "storeInv P (store (run cfg P (boot P d perms) es))"
proof -
  have "storeInv P (store w) \<Longrightarrow> storeInv P (store (foldl (step cfg P) w es))" for w
    by (induction es arbitrary: w) (simp_all add: storeInv_world_step)
  then show ?thesis by (simp add: run_def boot_def storeInv_init)
qed

subsection \<open>The delete\<close>

lemma sample_afterDelete:
  "activeTickets afterDelete = [] \<and> ticketsLoaded afterDelete
   \<and> store afterDelete
       = saveActiveTickets isoPlatform [] (initStore (serializeTickets isoPlatform registryA))"
proof -
  let ?i = "pressStaff ''1390000000000000001'' carol 1751825460000"
  have r: "map_of (activeTickets (ensureTicketsLoaded isoPlatform worldPersisted)) (channel ?i) = Some ticketA"
    by (simp add: worldPersisted_def registryA_def pressStaff_def press_def)
  have s: "isStaff cfgDefault ?i ticketA"
    by (simp add: isStaff_def pressStaff_def press_def ticketA_def getTicketRoles_def
        rolesOfType_def cfgDefault_def newSet_def setAdd_def)
  from management_delete[OF r s] delete_deletes[OF r]
  show ?thesis
    by (simp add: afterDelete_def worldPersisted_def registryA_def pressStaff_def press_def)
qed

text \<open>
  C5, as the code has it. Let a channel \<open>k\<close> have a record and a staff member
  press delete. The registry then has no entry for \<open>k\<close> at all, and the save
  requested carries that registry.

  From then on, as long as \<open>k\<close> is not created or registered again and the process
  does not restart while the file still holds a record under \<open>k\<close>, the registry has
  no record for \<open>k\<close>, before and after an on-demand load: a close request, a
  delete, a reopen and a transcript request on \<open>k\<close> each answer \<open>NotATicket\<close>, and
  a cancel replaces the prompt.

  When the save queue was in order at the delete (as it is in every state the module
  reaches), \<open>k\<close> is not created or registered again and the process has not
  restarted, then once the promise of the delete's save is resolved the file holds no
  record under \<open>k\<close>; and after that neither the file nor the registry gets one back,
  whatever happens, restarts included, unless \<open>k\<close> is created or registered again.
\<close>

theorem delete_removes_record:
  assumes r: "map_of (activeTickets (ensureTicketsLoaded P w)) k = Some r"
    and ch: "channel i = k" and staff: "isStaff cfg i r"
    and w': "w' = snd (onButton cfg P w TicketDelete i)"
    and n: "n = length (requests (store w))"
    and w'': "w'' = run cfg P w' es"
    and w''': "w''' = run cfg P w'' es'"
  shows "fst (onButton cfg P w TicketDelete i) = TicketDeleted
         \<and> map_of (activeTickets w') k = None
         \<and> k \<notin> fst ` set (activeTickets w')
         \<and> requests (store w') = requests (store w) @ [activeTickets w']
         \<and> (undisturbed cfg P k w' es \<longrightarrow>
              map_of (activeTickets w'') k = None
              \<and> map_of (activeTickets (ensureTicketsLoaded P w'')) k = None
              \<and> (channel j = k \<and> (b = TicketClose \<or> b = TicketDelete \<or> b = TicketReopen
                                   \<or> b = TicketTranscript) \<longrightarrow>
                    onButton cfg P w'' b j = (NotATicket, ensureTicketsLoaded P w''))
              \<and> onButton cfg P w'' TicketCloseCancel j = (ClosureCancelled, w''))
         \<and> (storeInv P (store w) \<and> list_all (\<lambda>e. \<not> recreates k e \<and> e \<noteq> Restart) es
              \<and> resolved (store w'') n \<longrightarrow>
              \<not> onFile P (disk (store w'')) k
              \<and> (list_all (\<lambda>e. \<not> recreates k e) es' \<longrightarrow>
                    \<not> onFile P (disk (store w''')) k
                    \<and> map_of (activeTickets w''') k = None
                    \<and> map_of (activeTickets (ensureTicketsLoaded P w''')) k = None))"
proof -
  from r ch have r': "map_of (activeTickets (ensureTicketsLoaded P w)) (channel i) = Some r" by simp
  from management_delete[OF r' staff] delete_deletes[OF r'] w' ch
  have a: "fst (onButton cfg P w TicketDelete i) = TicketDeleted"
    and l: "ticketsLoaded w'"
    and reg: "activeTickets w' = AList.delete k (activeTickets (ensureTicketsLoaded P w))"
    and st: "store w' = saveActiveTickets P (activeTickets w') (store w)"
    by simp_all
  from reg have none: "map_of (activeTickets w') k = None" by (simp add: delete_conv')
  then have notin: "k \<notin> fst ` set (activeTickets w')" by (simp add: map_of_eq_None_iff)
  from st have req: "requests (store w') = requests (store w) @ [activeTickets w']"
    by (simp add: requests_save)
  have later: "map_of (activeTickets w'') k = None
      \<and> map_of (activeTickets (ensureTicketsLoaded P w'')) k = None
      \<and> (channel j = k \<and> (b = TicketClose \<or> b = TicketDelete \<or> b = TicketReopen
                           \<or> b = TicketTranscript) \<longrightarrow>
            onButton cfg P w'' b j = (NotATicket, ensureTicketsLoaded P w''))
      \<and> onButton cfg P w'' TicketCloseCancel j = (ClosureCancelled, w'')"
    if u: "undisturbed cfg P k w' es"
  proof -
    from l none have "gone P k w'" by (simp add: gone_def)
    from gone_run[OF this u] w'' have g: "gone P k w''" by simp
    then have 1: "map_of (activeTickets w'') k = None" by (simp add: gone_def)
    from gone_lookup[OF g] have 2: "map_of (activeTickets (ensureTicketsLoaded P w'')) k = None" .
    then have 3: "channel j = k \<and> (b = TicketClose \<or> b = TicketDelete \<or> b = TicketReopen
                           \<or> b = TicketTranscript) \<longrightarrow>
            onButton cfg P w'' b j = (NotATicket, ensureTicketsLoaded P w'')"
      by (auto simp: management_no_record)
    from 1 2 3 show ?thesis by (simp add: closeTicketCancelled_def)
  qed
  have persisted: "\<not> onFile P (disk (store w'')) k
      \<and> (list_all (\<lambda>e. \<not> recreates k e) es' \<longrightarrow>
            \<not> onFile P (disk (store w''')) k
            \<and> map_of (activeTickets w''') k = None
            \<and> map_of (activeTickets (ensureTicketsLoaded P w''')) k = None)"
    if inv: "storeInv P (store w)" and q: "list_all (\<lambda>e. \<not> recreates k e \<and> e \<noteq> Restart) es"
      and res: "resolved (store w'') n"
  proof -
    from pending_init[OF inv none] st n have "pending P k n (store w')" by simp
    with l none have "ticketsLoaded w' \<and> map_of (activeTickets w') k = None \<and> pending P k n (store w')"
      by simp
    from awaiting_run[OF this q, of cfg] w''
    have lack: "map_of (activeTickets w'') k = None" and p: "pending P k n (store w'')" by simp_all
    from pending_clean[OF p res] lack have g: "goneForGood P k w''" by (simp add: goneForGood_def)
    have "\<not> onFile P (disk (store w''')) k
          \<and> map_of (activeTickets w''') k = None
          \<and> map_of (activeTickets (ensureTicketsLoaded P w''')) k = None"
      if "list_all (\<lambda>e. \<not> recreates k e) es'"
    proof -
      from forGood_run[OF g that, of cfg] w''' have g': "goneForGood P k w'''" by simp
      then have "gone P k w'''" by (simp add: gone_def goneForGood_def)
      from gone_lookup[OF this] g' show ?thesis by (simp add: goneForGood_def)
    qed
    with g show ?thesis by (simp add: goneForGood_def)
  qed
  from a none notin req later persisted show ?thesis by blast
qed

text \<open>
  C5 as stated has the record gone from the persisted map after the delete, and every
  later transition on the channel answered with \<open>NotATicket\<close>. When the write of
  the save fails, every request has settled and the file still loads with the record,
  which a restart then puts back into the registry; and the cancel button on the
  deleted channel answers "Ticket closure cancelled.".
\<close>

theorem delete_then_failed_write_or_cancel_counterexample:
  "allSettled (foldl (storeStep isoPlatform) (store afterDelete)
                 [WriteCompletes (WriteFailed Untouched), TimerFires])
   \<and> map_of (loadActiveTickets isoPlatform
               (disk (foldl (storeStep isoPlatform) (store afterDelete)
                        [WriteCompletes (WriteFailed Untouched), TimerFires])))
        ''1390000000000000001'' = Some ticketA
   \<and> map_of (activeTickets afterDelete) ''1390000000000000001'' = None
   \<and> map_of (activeTickets (run cfgDefault isoPlatform afterDelete
                               [WriteDone (WriteFailed Untouched), TimerDue, Restart]))
        ''1390000000000000001'' = Some ticketA
   \<and> fst (onButton cfgDefault isoPlatform afterDelete TicketCloseCancel
            (press ''1390000000000000001'' alice 1751825470000)) = ClosureCancelled
   \<and> ClosureCancelled \<noteq> NotATicket"
proof -
  have "map_of registryA ''1390000000000000001'' = Some ticketA" by (simp add: registryA_def)
  then show ?thesis
    by (simp add: sample_afterDelete store_defs load_registryA closeTicketCancelled_def run_def
        boot_def)
qed

text \<open>
  The theorem at a persisted ticket deleted by a staff member. Once the write has
  succeeded the file holds no record of the channel; the process may then restart,
  and a late press of the confirm button and a reopen by a staff member find no
  ticket.
\<close>

theorem delete_removes_record_witness:
  "map_of (activeTickets afterDelete) ''1390000000000000001'' = None
   \<and> \<not> onFile isoPlatform
        (disk (store (run cfgDefault isoPlatform afterDelete [WriteDone Written, TimerDue])))
        ''1390000000000000001''
   \<and> fst (onButton cfgDefault isoPlatform
            (run cfgDefault isoPlatform afterDelete
               [WriteDone Written, TimerDue, Restart,
                Button TicketCloseConfirm (press ''1390000000000000001'' alice 1751825470000)])
            TicketReopen (pressStaff ''1390000000000000001'' carol 1751825480000))
      = NotATicket"
proof -
  let ?k = "''1390000000000000001''"
  let ?i = "pressStaff ?k carol 1751825460000"
  let ?es1 = "[WriteDone Written, TimerDue]"
  let ?es2 = "[WriteDone Written, TimerDue, Restart,
               Button TicketCloseConfirm (press ?k alice 1751825470000)]"
  let ?j = "pressStaff ?k carol 1751825480000"
  have r: "map_of (activeTickets (ensureTicketsLoaded isoPlatform worldPersisted)) ?k = Some ticketA"
    by (simp add: worldPersisted_def registryA_def)
  have ch: "channel ?i = ?k" "channel ?j = ?k" by (simp_all add: pressStaff_def press_def)
  have s: "isStaff cfgDefault ?i ticketA"
    by (simp add: isStaff_def pressStaff_def press_def ticketA_def getTicketRoles_def
        rolesOfType_def cfgDefault_def newSet_def setAdd_def)
  have inv: "storeInv isoPlatform (store worldPersisted)"
    by (simp add: worldPersisted_def storeInv_init)
  have n: "0 = length (requests (store worldPersisted))"
    by (simp add: worldPersisted_def initStore_def)
  have empty: "\<not> onFile isoPlatform (serializeTickets isoPlatform []) k" for k
    by (simp add: not_onFile_serialize)
  have q: "list_all (\<lambda>e. \<not> recreates ?k e \<and> e \<noteq> Restart) ?es1" by simp
  have res: "resolved (store (run cfgDefault isoPlatform afterDelete ?es1)) 0"
    by (simp add: run_def sample_afterDelete store_defs)
  have u: "undisturbed cfgDefault isoPlatform ?k afterDelete ?es2"
    using empty by (simp add: sample_afterDelete store_defs)
  from delete_removes_record[where es = ?es1 and es' = "[]" and j = ?j and b = TicketReopen,
      OF r ch(1) s afterDelete_def[unfolded atomize_eq] n refl refl]
    inv q res
  have 1: "map_of (activeTickets afterDelete) ?k = None"
    and 2: "\<not> onFile isoPlatform (disk (store (run cfgDefault isoPlatform afterDelete ?es1))) ?k"
    by simp_all
  from delete_removes_record[where es = ?es2 and es' = "[]" and j = ?j and b = TicketReopen,
      OF r ch(1) s afterDelete_def[unfolded atomize_eq] n refl refl]
    u ch(2)
  have 3: "fst (onButton cfgDefault isoPlatform (run cfgDefault isoPlatform afterDelete ?es2)
                  TicketReopen ?j) = NotATicket"
    by simp
  from 1 2 3 show ?thesis by simp
qed
section \<open>C6: a channel without a record\<close>

text \<open>
  C6, as the code has it. On a channel with no record in the registry (after the
  on-demand load), the buttons close, delete, reopen and transcript, and the handlers
  \<^verbatim>\<open>closeTicket\<close>, \<^verbatim>\<open>reopenTicket\<close>, \<^verbatim>\<open>deleteTicket\<close> and
  \<^verbatim>\<open>createTranscript\<close> called directly, answer \<open>NotATicket\<close>. Nothing happens
  but the on-demand load: the save queue, the file and the permission overwrites are as
  before, and so is the registry once it has been loaded. The cancel button does not
  look the channel up: it replaces the prompt and changes nothing.
\<close>

theorem no_record_not_a_ticket:
  assumes "map_of (activeTickets (ensureTicketsLoaded P w)) (channel i) = None"
  shows "(b = TicketClose \<or> b = TicketDelete \<or> b = TicketReopen \<or> b = TicketTranscript \<longrightarrow>
            onButton cfg P w b i = (NotATicket, ensureTicketsLoaded P w))
         \<and> closeTicket P w i = (NotATicket, ensureTicketsLoaded P w)
         \<and> reopenTicket P w i = (NotATicket, ensureTicketsLoaded P w)
         \<and> deleteTicket P w i = (NotATicket, ensureTicketsLoaded P w)
         \<and> createTranscript P w i = (NotATicket, ensureTicketsLoaded P w)
         \<and> store (ensureTicketsLoaded P w) = store w
         \<and> sendMessages (ensureTicketsLoaded P w) = sendMessages w
         \<and> (ticketsLoaded w \<longrightarrow> ensureTicketsLoaded P w = w)
         \<and> onButton cfg P w TicketCloseCancel i = (ClosureCancelled, w)"
  using assms
  by (auto simp: management_no_record closeTicket_def reopenTicket_def deleteTicket_def
      createTranscript_def closeTicketCancelled_def)

text \<open>
  C6 as stated has every transition on such a channel fail with \<open>NotATicket\<close>.
  The cancel button on a channel without a record answers "Ticket closure cancelled.".
\<close>

theorem cancel_without_record_counterexample:
  "map_of (activeTickets (ensureTicketsLoaded isoPlatform (worldOf registryA))) ''1390000000000000777'' = None
   \<and> onButton cfgDefault isoPlatform (worldOf registryA) TicketCloseCancel
        (pressStaff ''1390000000000000777'' carol 5) = (ClosureCancelled, worldOf registryA)
   \<and> ClosureCancelled \<noteq> NotATicket"
  by (simp add: worldOf_def registryA_def closeTicketCancelled_def)

text \<open>
  The theorem at a channel that is no ticket: reopen and delete answer
  \<open>NotATicket\<close> and leave the state as it is.
\<close>

theorem no_record_not_a_ticket_witness:
  "onButton cfgDefault isoPlatform (worldOf registryA) TicketReopen (press ''1390000000000000777'' alice 5)
     = (NotATicket, worldOf registryA)
   \<and> onButton cfgDefault isoPlatform (worldOf registryA) TicketDelete (press ''1390000000000000777'' alice 5)
     = (NotATicket, worldOf registryA)"
proof -
  let ?i = "press ''1390000000000000777'' alice 5"
  have n: "map_of (activeTickets (ensureTicketsLoaded isoPlatform (worldOf registryA))) (channel ?i) = None"
    by (simp add: worldOf_def registryA_def press_def)
  have l: "ticketsLoaded (worldOf registryA)" by (simp add: worldOf_def)
  from l no_record_not_a_ticket[OF n, of TicketReopen cfgDefault]
    no_record_not_a_ticket[OF n, of TicketDelete cfgDefault]
  show ?thesis by simp
qed

section \<open>C7: a close request that is cancelled\<close>


lemma sample_afterTornWrite:
  "activeTickets afterTornWrite = registryA \<and> \<not> ticketsLoaded afterTornWrite
   \<and> disk (store afterTornWrite) = Unparseable"
proof -
  have "filter (\<lambda>e. fst e \<in> set [''1390000000000000001'']) registryA = registryA"
    by (simp add: registryA_def)
  then show ?thesis
    by (simp add: afterTornWrite_def run_def boot_def load_registryA onReady_def saveRegistry_def
        store_defs)
qed

text \<open>
  C7 as stated has the record exactly as it was after the two steps. The first request
  after a start loads the registry again from the file. Here the process starts on a
  file with one open ticket, the \<^verbatim>\<open>ready\<close> handler saves, and that write fails and
  leaves the file cut short: the registry still holds the ticket, the close request
  reloads, finds the registry empty and answers \<open>NotATicket\<close>, and after the cancel
  the record is gone.
\<close>

theorem close_request_reloads_counterexample:
  "map_of (activeTickets afterTornWrite) ''1390000000000000001'' = Some ticketA
   \<and> closed ticketA \<noteq> Some True
   \<and> fst (onButton cfgDefault isoPlatform afterTornWrite TicketClose
            (pressStaff ''1390000000000000001'' carol 5)) = NotATicket
   \<and> map_of (activeTickets (snd (onButton cfgDefault isoPlatform
            (snd (onButton cfgDefault isoPlatform afterTornWrite TicketClose
                   (pressStaff ''1390000000000000001'' carol 5)))
            TicketCloseCancel (pressStaff ''1390000000000000001'' carol 9))))
        ''1390000000000000001'' = None"
  by (simp add: sample_afterTornWrite managementButton_def ensureTicketsLoaded_def
      closeTicketCancelled_def registryA_def ticketA_def)


section \<open>C8: saving and loading\<close>

lemma requests_step: "\<exists>ys. requests (storeStep P s e) = requests s @ ys"
proof (cases e)
  case (Save t)
  then show ?thesis by (simp add: requests_save)
next
  case (WriteCompletes out)
  then show ?thesis
    by (cases "inflight s"; cases out) (simp_all add: writeCompletes_def)
next
  case TimerFires
  then show ?thesis
    by (cases "saveQueue s") (simp_all add: timerFires_def processNextSave_def)
qed

lemma requests_foldl: "\<exists>ys. requests (foldl (storeStep P) s es) = requests s @ ys"
proof (induction es arbitrary: s)
  case Nil
  then show ?case by simp
next
  case (Cons e es)
  from requests_step[of P s e] obtain ys where "requests (storeStep P s e) = requests s @ ys" by blast
  moreover from Cons[of "storeStep P s e"] obtain zs
    where "requests (foldl (storeStep P) (storeStep P s e) es) = requests (storeStep P s e) @ zs"
    by blast
  ultimately show ?case by simp
qed

lemma saved_snapshot:
  "requests (foldl (storeStep P) (saveActiveTickets P m s) es) ! length (requests s) = m"
proof -
  from requests_foldl[of P "saveActiveTickets P m s" es] obtain ys
    where "requests (foldl (storeStep P) (saveActiveTickets P m s) es) = (requests s @ [m]) @ ys"
    by (auto simp: requests_save)
  then show ?thesis by (simp add: nth_append)
qed

text \<open>
  C8. Here the platform's \<^verbatim>\<open>toISOString\<close> and \<^verbatim>\<open>Date.parse\<close> are the functions of
  the instance above, which follow ECMAScript. Take the module's store in any state it
  can reach, and a map \<open>m\<close> of records (its keys distinct, as in a JS \<^verbatim>\<open>Map\<close>; the
  time value of each valid Date within the range of a Date). \<^verbatim>\<open>saveActiveTickets(m)\<close>
  is called, anything may follow, and \<open>e\<close> is the step that resolves the promise of
  that call. The file is then the serialization of \<open>m\<close>, and the map \<open>m'\<close> loaded
  from it has, under each key of \<open>m\<close>, a record whose \<^verbatim>\<open>createdAt\<close>,
  \<^verbatim>\<open>closedAt\<close> and \<^verbatim>\<open>reopenedAt\<close> denote the same instants as before, to the
  millisecond and so to the second (an Invalid Date, which denotes none, comes back as
  an absent field), and no record under any other key. The one exception is a key
  \<^verbatim>\<open>__proto__\<close>, which no channel id is: the copy into a plain object loses it.
  When no key is an array index or \<^verbatim>\<open>__proto__\<close> (channel ids are numbers of 17
  digits and more) the keys come back in the same order, and when moreover no
  timestamp is an Invalid Date and no \<^verbatim>\<open>channelId\<close> is empty, the loaded map is the
  map saved.
\<close>

theorem save_load_round_trip:
  assumes s: "s = storeRun isoPlatform d es"
    and s1: "s1 = foldl (storeStep isoPlatform) (saveActiveTickets isoPlatform m s) es1"
    and res: "\<not> resolved s1 (length (requests s))"
      "resolved (storeStep isoPlatform s1 e) (length (requests s))"
    and m': "m' = loadActiveTickets isoPlatform (disk (storeStep isoPlatform s1 e))"
    and d: "distinct (map fst m)"
    and v: "list_all (\<lambda>e. validStamps (snd e)) m"
  shows "disk (storeStep isoPlatform s1 e) = serializeTickets isoPlatform m
         \<and> (\<forall>k r. map_of m k = Some r \<and> k \<noteq> ''__proto__'' \<longrightarrow>
               (\<exists>r'. map_of m' k = Some r'
                  \<and> instant (createdAt r') = instant (createdAt r)
                  \<and> instant (closedAt r') = instant (closedAt r)
                  \<and> instant (reopenedAt r') = instant (reopenedAt r)
                  \<and> seconds (createdAt r') = seconds (createdAt r)
                  \<and> seconds (closedAt r') = seconds (closedAt r)
                  \<and> seconds (reopenedAt r') = seconds (reopenedAt r)))
         \<and> (\<forall>k. map_of m k = None \<or> k = ''__proto__'' \<longrightarrow> map_of m' k = None)
         \<and> ((\<forall>e\<in>set m. \<not> isArrayIndex (fst e) \<and> fst e \<noteq> ''__proto__'') \<longrightarrow>
               map fst m' = map fst m \<and> (list_all plain m \<longrightarrow> m' = m))"
proof -
  let ?P = isoPlatform
  have "storeInv ?P s" unfolding s by (rule storeInv_run)
  then have "storeInv ?P (saveActiveTickets ?P m s)"
    using storeInv_step[of ?P s "Save m"] by simp
  then have inv: "storeInv ?P s1" unfolding s1 by (rule storeInv_foldl)
  from resolved_step[OF inv res]
  have "disk (storeStep ?P s1 e) = serializeTickets ?P (requests s1 ! length (requests s))"
    by blast
  also have "requests s1 ! length (requests s) = m" unfolding s1 by (rule saved_snapshot)
  finally have disk: "disk (storeStep ?P s1 e) = serializeTickets ?P m" .
  with m' have eq: "m' = loadActiveTickets ?P (serializeTickets ?P m)" by simp
  have rec: "\<exists>r'. map_of m' k = Some r'
          \<and> instant (createdAt r') = instant (createdAt r)
          \<and> instant (closedAt r') = instant (closedAt r)
          \<and> instant (reopenedAt r') = instant (reopenedAt r)
          \<and> seconds (createdAt r') = seconds (createdAt r)
          \<and> seconds (closedAt r') = seconds (closedAt r)
          \<and> seconds (reopenedAt r') = seconds (reopenedAt r)"
    if r: "map_of m k = Some r" and k: "k \<noteq> ''__proto__''" for k r
  proof -
    from r have "(k, r) \<in> set m" by (rule map_of_SomeD)
    with v have "validStamps r" by (auto simp: list_all_iff)
    then have "stampsOk ?P r" by (rule stampsOk_iso)
    from reload_instants[OF this, of k] eq r k show ?thesis
      by (simp add: map_of_load_serialize[OF d] seconds_def)
  qed
  have none: "map_of m' k = None" if "map_of m k = None \<or> k = ''__proto__''" for k
    using that eq by (auto simp: map_of_load_serialize[OF d])
  have order: "map fst m' = map fst m \<and> (list_all plain m \<longrightarrow> m' = m)"
    if p: "\<forall>e\<in>set m. \<not> isArrayIndex (fst e) \<and> fst e \<noteq> ''__proto__''"
  proof -
    from eq load_serialize[OF d p]
    have l: "m' = map (\<lambda>e. (fst e, reload ?P (fst e) (snd e))) m" by simp
    have "map fst (map (\<lambda>e. (fst e, reload ?P (fst e) (snd e))) m) = map fst m"
      by (induction m) simp_all
    with l have keys: "map fst m' = map fst m" by (simp only:)
    from v have "list_all (\<lambda>e. stampsOk ?P (snd e)) m"
      by (auto simp: list_all_iff stampsOk_iso)
    with l have "list_all plain m \<longrightarrow> m' = m" by (simp add: map_reload_id)
    with keys show ?thesis by simp
  qed
  from disk rec none order show ?thesis by blast
qed

text \<open>
  The theorem at a registry with timestamps off the full second, one before the epoch
  and an Invalid Date, saved into an empty store and written.
\<close>

theorem save_load_round_trip_witness:
  "map_option (\<lambda>r. (instant (createdAt r), instant (closedAt r), instant (reopenedAt r)))
     (map_of (loadActiveTickets isoPlatform
                (disk (storeRun isoPlatform NoFile [Save registryStamped, WriteCompletes Written])))
        ''1390000000000000001'')
     = Some (Some 1751825369000, Some 1751825460123, Some 1751829060999)
   \<and> map_option (\<lambda>r. (instant (createdAt r), instant (closedAt r), instant (reopenedAt r)))
     (map_of (loadActiveTickets isoPlatform
                (disk (storeRun isoPlatform NoFile [Save registryStamped, WriteCompletes Written])))
        ''1390000000000000002'')
     = Some (Some (- 1), None, None)
   \<and> loadActiveTickets isoPlatform
        (disk (storeRun isoPlatform NoFile [Save registryA, WriteCompletes Written])) = registryA"
proof -
  let ?P = isoPlatform
  let ?s = "storeRun ?P NoFile []"
  let ?e = "WriteCompletes Written"
  have n: "length (requests ?s) = 0" by (simp add: store_defs)
  have run: "storeRun ?P NoFile [Save m, ?e] = storeStep ?P (foldl (storeStep ?P) (saveActiveTickets ?P m ?s) []) ?e"
    for m by (simp add: storeRun_def)
  have res: "\<not> resolved (foldl (storeStep ?P) (saveActiveTickets ?P m ?s) []) (length (requests ?s))"
    "resolved (storeStep ?P (foldl (storeStep ?P) (saveActiveTickets ?P m ?s) []) ?e) (length (requests ?s))"
    for m by (simp_all add: store_defs)
  have d: "distinct (map fst registryStamped)" "distinct (map fst registryA)"
    by (simp_all add: registryStamped_def registryA_def)
  have v: "list_all (\<lambda>e. validStamps (snd e)) registryStamped"
    "list_all (\<lambda>e. validStamps (snd e)) registryA"
    by (simp_all add: registryStamped_def registryA_def validStamps_def timeValue_def ticketA_def
        ticketOf_def)
  have p: "\<forall>e\<in>set registryA. \<not> isArrayIndex (fst e) \<and> fst e \<noteq> ''__proto__''"
    "list_all plain registryA"
    by (simp_all add: registryA_def plain_def ticketA_def not_index_long)
  have m: "map_of registryStamped ''1390000000000000001''
             = Some (ticketA\<lparr>closed := Some False, closedAt := Some (DateMs 1751825460123),
                   closedBy := Some carol, reopenedAt := Some (DateMs 1751829060999),
                   reopenedBy := Some carol\<rparr>)"
      "map_of registryStamped ''1390000000000000002''
             = Some ((ticketOf ''1390000000000000002'' bob ''hr'')\<lparr>createdAt := Some (DateMs (-1)),
                   closedAt := Some InvalidDate\<rparr>)"
    by (simp_all add: registryStamped_def)
  let ?m' = "loadActiveTickets ?P (disk (storeRun ?P NoFile [Save registryStamped, ?e]))"
  from save_load_round_trip[OF refl refl res refl d(1) v(1)]
  have all: "\<And>k r. map_of registryStamped k = Some r \<Longrightarrow> k \<noteq> ''__proto__'' \<Longrightarrow>
      \<exists>r'. map_of ?m' k = Some r' \<and> instant (createdAt r') = instant (createdAt r)
        \<and> instant (closedAt r') = instant (closedAt r)
        \<and> instant (reopenedAt r') = instant (reopenedAt r)"
    unfolding run by blast
  from all[OF m(1)] have 1: "map_option (\<lambda>r. (instant (createdAt r), instant (closedAt r), instant (reopenedAt r)))
     (map_of ?m' ''1390000000000000001'')
     = Some (Some 1751825369000, Some 1751825460123, Some 1751829060999)"
    by (auto simp: ticketA_def)
  from all[OF m(2)] have 2: "map_option (\<lambda>r. (instant (createdAt r), instant (closedAt r), instant (reopenedAt r)))
     (map_of ?m' ''1390000000000000002'')
     = Some (Some (- 1), None, None)"
    by (auto simp: ticketOf_def)
  from save_load_round_trip[OF refl refl res refl d(2) v(2)] p
  have 3: "loadActiveTickets ?P (disk (storeRun ?P NoFile [Save registryA, ?e])) = registryA"
    unfolding run by blast
  from 1 2 3 show ?thesis by simp
qed
section \<open>C9: the staff roles of a ticket type\<close>

lemma set_fold_setAdd: "set (fold setAdd xs acc) = set acc \<union> set xs"
  by (induction xs arbitrary: acc) (auto simp: setAdd_def)

lemma distinct_fold_setAdd: "distinct acc \<Longrightarrow> distinct (fold setAdd xs acc)"
  by (induction xs arbitrary: acc) (auto simp: setAdd_def)

lemma set_newSet: "set (newSet xs) = set xs"
  by (simp add: newSet_def set_fold_setAdd)

lemma distinct_newSet: "distinct (newSet xs)"
  by (simp add: newSet_def distinct_fold_setAdd)

lemma set_filterBoolean: "set (filterBoolean rs) = {r. Some r \<in> set rs \<and> r \<noteq> []}"
  by (induction rs rule: filterBoolean.induct) auto

text \<open>
  C9, as the code has it. \<^verbatim>\<open>getTicketRoles\<close> returns each truthy (non-empty)
  identifier configured for the type exactly once: \<^verbatim>\<open>staffRoles.hr\<close> for
  \<^verbatim>\<open>joinTeam\<close> and \<^verbatim>\<open>hr\<close>, \<^verbatim>\<open>staffRoles.bookings\<close> for \<^verbatim>\<open>bookUs\<close>, the
  entry of the same name for \<^verbatim>\<open>support\<close>, \<^verbatim>\<open>partnership\<close> and
  \<^verbatim>\<open>founders\<close>. It does not look at the shape of an identifier; the creation
  functions do, keeping of its result the identifiers that \<^verbatim>\<open>isValidSnowflake\<close>
  accepts and the guild knows.
\<close>

theorem getTicketRoles_dedup_truthy:
  "distinct (getTicketRoles cfg ticketType)
   \<and> set (getTicketRoles cfg ticketType) = {r. Some r \<in> set (rolesOfType cfg ticketType) \<and> r \<noteq> []}
   \<and> rolesOfType cfg ''joinTeam'' = pushRoles (hr (staffRoles cfg))
   \<and> rolesOfType cfg ''hr'' = pushRoles (hr (staffRoles cfg))
   \<and> rolesOfType cfg ''bookUs'' = pushRoles (bookings (staffRoles cfg))
   \<and> rolesOfType cfg ''support'' = pushRoles (support (staffRoles cfg))
   \<and> rolesOfType cfg ''partnership'' = pushRoles (partnership (staffRoles cfg))
   \<and> rolesOfType cfg ''founders'' = pushRoles (founders (staffRoles cfg))
   \<and> set (visibleRoles cfg i ticketType)
       = {r \<in> set (getTicketRoles cfg ticketType). isValidSnowflake r \<and> r \<in> set (guildRoles i)}"
  by (auto simp: getTicketRoles_def distinct_newSet set_newSet set_filterBoolean rolesOfType_def
      visibleRoles_def)

text \<open>
  C9 as stated has malformed identifiers excluded from the result of
  \<^verbatim>\<open>getTicketRoles\<close>. A configured role that is no snowflake is returned.
\<close>

theorem getTicketRoles_keeps_malformed_counterexample:
  "getTicketRoles cfgMalformed ''support'' = [''moderators'', ''1380000000000000042'']
   \<and> \<not> isValidSnowflake ''moderators''"
  by (simp add: getTicketRoles_def rolesOfType_def cfgMalformed_def newSet_def setAdd_def
      isValidSnowflake_def isDigit_def)

section \<open>C10: every record is stored under its own channel id\<close>

lemma keyed_map_of: "keyed reg \<Longrightarrow> map_of reg k = Some r \<Longrightarrow> channelId r = k"
proof -
  assume a: "keyed reg" and "map_of reg k = Some r"
  then have "(k, r) \<in> set reg" by (simp add: map_of_SomeD)
  with a show ?thesis by (auto simp: keyed_def list_all_iff)
qed

lemma keyed_Nil: "keyed []"
  by (simp add: keyed_def)

lemma keyed_update: "keyed reg \<Longrightarrow> channelId r = k \<Longrightarrow> keyed (AList.update k r reg)"
  unfolding keyed_def by (induction reg) auto

lemma keyed_delete: "keyed reg \<Longrightarrow> keyed (AList.delete k reg)"
  by (simp add: keyed_def AList.delete_eq list_all_iff)

lemma keyed_filter: "keyed reg \<Longrightarrow> keyed (filter Q reg)"
  by (simp add: keyed_def list_all_iff)

lemma keyed_load: "keyedFile f \<Longrightarrow> keyed (loadActiveTickets P f)"
proof (cases f)
  case (Doc ms)
  assume k: "keyedFile f"
  have "channelId r = key" if "(key, r) \<in> set (loadActiveTickets P (Doc ms))" for key r
  proof -
    from set_load_Doc[OF that] obtain v where v: "(key, v) \<in> set ms" "r = reviveTicket P key v"
      by blast
    with k Doc have "keyedEntry (key, v)" by (auto simp: list_all_iff)
    with v(2) show ?thesis by (auto simp: keyedEntry_def reviveTicket_def split: option.splits)
  qed
  with Doc show ?thesis unfolding keyed_def list_all_iff by auto
qed (simp_all add: keyed_Nil)

lemma keyedFile_serialize: "keyed reg \<Longrightarrow> keyedFile (serializeTickets P reg)"
  using set_ticketsObj[of reg]
  by (auto simp: serializeTickets_def keyed_def list_all_iff keyedEntry_def ticketToJSON_def)

lemma keyedFile_damaged: "keyedFile f \<Longrightarrow> keyedFile (damaged d f)"
  by (cases d) simp_all

lemma storeKeyed_process: "storeKeyed s \<Longrightarrow> storeKeyed (processNextSave P s)"
  by (cases "saveQueue s") (simp_all add: storeKeyed_def processNextSave_def keyedFile_serialize)

lemma storeKeyed_save: "storeKeyed s \<Longrightarrow> keyed t \<Longrightarrow> storeKeyed (saveActiveTickets P t s)"
proof -
  assume a: "storeKeyed s" and t: "keyed t"
  let ?s1 = "s\<lparr>saveQueue := saveQueue s @ [(length (requests s), t)], requests := requests s @ [t]\<rparr>"
  from a t have "storeKeyed ?s1" by (simp add: storeKeyed_def)
  then have "storeKeyed (processNextSave P ?s1)" by (rule storeKeyed_process)
  with \<open>storeKeyed ?s1\<close> show ?thesis by (simp add: saveActiveTickets_def Let_def)
qed

lemma storeKeyed_write: "storeKeyed s \<Longrightarrow> storeKeyed (writeCompletes out s)"
  by (cases "inflight s"; cases out)
     (simp_all add: storeKeyed_def writeCompletes_def keyedFile_damaged)

lemma storeKeyed_timer: "storeKeyed s \<Longrightarrow> storeKeyed (timerFires P s)"
proof -
  assume a: "storeKeyed s"
  then have "storeKeyed (s\<lparr>timers := timers s - 1\<rparr>)" by (simp add: storeKeyed_def)
  then have "storeKeyed (processNextSave P (s\<lparr>timers := timers s - 1\<rparr>))" by (rule storeKeyed_process)
  with a show ?thesis by (simp add: timerFires_def)
qed

lemma worldInv_boot: "keyedFile d \<Longrightarrow> worldInv (boot P d perms)"
  by (simp add: worldInv_def storeKeyed_def boot_def initStore_def keyed_load)

lemma worldInv_ensure: "worldInv w \<Longrightarrow> worldInv (ensureTicketsLoaded P w)"
  by (simp add: worldInv_def storeKeyed_def ensureTicketsLoaded_def keyed_load)

lemma worldInv_saveRegistry: "worldInv w \<Longrightarrow> worldInv (saveRegistry P w)"
  by (simp add: worldInv_def saveRegistry_def storeKeyed_save)

lemma worldInv_registry:
  "worldInv w \<Longrightarrow> keyed reg \<Longrightarrow> worldInv (w\<lparr>activeTickets := reg\<rparr>)"
  by (simp add: worldInv_def)

lemma worldInv_perms: "worldInv w \<Longrightarrow> worldInv (w\<lparr>sendMessages := p\<rparr>)"
  by (simp add: worldInv_def)

lemma worldInv_keyed: "worldInv w \<Longrightarrow> keyed (activeTickets w)"
  by (simp add: worldInv_def)

lemma worldInv_openChannel:
  "worldInv w \<Longrightarrow> channelId t = newChannel i \<Longrightarrow> worldInv (snd (openChannel cfg P w i t))"
  by (simp add: openChannel_def Let_def worldInv_saveRegistry worldInv_registry worldInv_perms
      keyed_update worldInv_keyed)

lemma worldInv_createTicket: "worldInv w \<Longrightarrow> worldInv (snd (createTicket cfg P w i ty))"
  by (simp add: createTicket_def Let_def worldInv_ensure worldInv_openChannel freshTicket_def
      split: option.splits)

lemma worldInv_createTicketWithFormData:
  "worldInv w \<Longrightarrow> worldInv (snd (createTicketWithFormData cfg P w i ty fd))"
  by (simp add: createTicketWithFormData_def Let_def worldInv_ensure worldInv_openChannel
      freshTicket_def split: option.splits)

lemma worldInv_register: "worldInv w \<Longrightarrow> worldInv (snd (registerExistingTicket P w i opts))"
  by (simp add: registerExistingTicket_def Let_def worldInv_ensure worldInv_saveRegistry
      worldInv_registry keyed_update worldInv_keyed split: option.splits)

lemma worldInv_confirm: "worldInv w \<Longrightarrow> worldInv (snd (closeTicketConfirmed P w i))"
proof -
  assume a: "worldInv w"
  then have e: "worldInv (ensureTicketsLoaded P w)" by (rule worldInv_ensure)
  show ?thesis
  proof (cases "map_of (activeTickets (ensureTicketsLoaded P w)) (channel i)")
    case None
    with e show ?thesis by (simp add: closeTicketConfirmed_def)
  next
    case (Some r)
    with worldInv_keyed[OF e] have "channelId r = channel i" by (rule keyed_map_of)
    with e Some show ?thesis
      by (simp add: closeTicketConfirmed_def Let_def worldInv_saveRegistry worldInv_registry
          worldInv_perms keyed_update worldInv_keyed)
  qed
qed

lemma worldInv_reopen: "worldInv w \<Longrightarrow> worldInv (snd (reopenTicket P w i))"
proof -
  assume a: "worldInv w"
  then have e: "worldInv (ensureTicketsLoaded P w)" by (rule worldInv_ensure)
  show ?thesis
  proof (cases "map_of (activeTickets (ensureTicketsLoaded P w)) (channel i)")
    case None
    with e show ?thesis by (simp add: reopenTicket_def)
  next
    case (Some r)
    with worldInv_keyed[OF e] have "channelId r = channel i" by (rule keyed_map_of)
    with e Some show ?thesis
      by (simp add: reopenTicket_def Let_def worldInv_saveRegistry worldInv_registry
          worldInv_perms keyed_update worldInv_keyed)
  qed
qed

lemma worldInv_delete: "worldInv w \<Longrightarrow> worldInv (snd (deleteTicket P w i))"
  by (simp add: deleteTicket_def Let_def worldInv_ensure worldInv_saveRegistry worldInv_registry
      keyed_delete worldInv_keyed split: option.splits)

lemma worldInv_management: "worldInv w \<Longrightarrow> worldInv (snd (managementButton cfg P w b i))"
proof -
  assume a: "worldInv w"
  then have e: "worldInv (ensureTicketsLoaded P w)" by (rule worldInv_ensure)
  from e worldInv_reopen[OF e, of P i] worldInv_delete[OF e, of P i] show ?thesis
    by (simp add: managementButton_def closeTicket_def createTranscript_def Let_def
        split: option.splits)
qed

lemma worldInv_button: "worldInv w \<Longrightarrow> worldInv (snd (onButton cfg P w b i))"
  by (cases b)
     (simp_all add: worldInv_management worldInv_confirm worldInv_createTicket worldInv_ensure
        closeTicketCancelled_def)

lemma worldInv_step: "worldInv w \<Longrightarrow> worldInv (step cfg P w e)"
proof (cases e)
  case (Ready live)
  assume "worldInv w"
  then show ?thesis
    using Ready by (simp add: onReady_def worldInv_saveRegistry worldInv_registry keyed_filter worldInv_keyed)
next
  case (WriteDone out)
  assume "worldInv w"
  then show ?thesis using WriteDone by (simp add: worldInv_def storeKeyed_write)
next
  case TimerDue
  assume "worldInv w"
  then show ?thesis using TimerDue by (simp add: worldInv_def storeKeyed_timer)
next
  case Restart
  assume "worldInv w"
  then have "keyedFile (disk (store w))" by (simp add: worldInv_def storeKeyed_def)
  then show ?thesis using Restart by (simp add: worldInv_boot)
qed (simp_all add: worldInv_button worldInv_register worldInv_ensure onModalSubmit_def
      worldInv_createTicketWithFormData)

lemma worldInv_run: "worldInv w \<Longrightarrow> worldInv (run cfg P w es)"
  unfolding run_def by (induction es arbitrary: w) (simp_all add: worldInv_step)

lemma sample_run_registry:
  "map fst (activeTickets (run cfgDefault isoPlatform (boot isoPlatform legacyFile []) sampleEvents))
     = [''1390000000000000001'', ''1390000000000000099'']"
  by (simp add: run_def sampleEvents_def boot_def legacyFile_def initStore_def
      createTicket_def closeTicketConfirmed_def ensureTicketsLoaded_def succeeds_def press_def
      pressStaff_def loadEntry_def reviveTicket_def quotaDenial_def userTickets_def
      userTicketsOfType_def maxTotal_def maxPerType_def cfgDefault_def openChannel_def
      freshTicket_def saveRegistry_def saveActiveTickets_def processNextSave_def
      writeCompletes_def timerFires_def serializeTickets_def ticketsObj_def jsonParse_def
      objectEntries_plain not_index_long ticketToJSON_def Let_def
      alice_def bob_def carol_def grantSend_def visibleRoles_def)

text \<open>
  C10. Start the module on a keyed file (none, one that does not parse, one the module
  wrote, or an older one whose records lack \<^verbatim>\<open>channelId\<close>) and let anything happen:
  button presses, modal submissions, registrations, the \<^verbatim>\<open>ready\<close> handler, write
  completions, timers, restarts. In every state reached, each record of the registry
  has the \<^verbatim>\<open>channelId\<close> of the key it is stored under, and the file is keyed again.
  (\<^verbatim>\<open>loadActiveTickets\<close> fills in a missing \<^verbatim>\<open>channelId\<close> and keeps one that is
  present, so a file edited to name another channel than the key is not such a start.)
\<close>

theorem channelId_is_key:
  assumes "keyedFile d" and "w = run cfg P (boot P d perms) es"
  shows "keyed (activeTickets w)
         \<and> (\<forall>k r. map_of (activeTickets w) k = Some r \<longrightarrow> channelId r = k)
         \<and> keyedFile (disk (store w))"
proof -
  from assms have "worldInv w" by (simp add: worldInv_run worldInv_boot)
  then show ?thesis by (auto simp: worldInv_def storeKeyed_def keyed_map_of)
qed

text \<open>
  The theorem at a run from an older file: a ticket is created, the save is written,
  the process restarts and a staff member confirms the close of the older ticket.
\<close>

theorem channelId_is_key_witness:
  "keyedFile legacyFile
   \<and> map_option channelId
        (map_of (activeTickets (run cfgDefault isoPlatform (boot isoPlatform legacyFile []) sampleEvents))
           ''1390000000000000001'') = Some ''1390000000000000001''
   \<and> map_option channelId
        (map_of (activeTickets (run cfgDefault isoPlatform (boot isoPlatform legacyFile []) sampleEvents))
           ''1390000000000000099'') = Some ''1390000000000000099''"
proof -
  let ?w = "run cfgDefault isoPlatform (boot isoPlatform legacyFile []) sampleEvents"
  have kf: "keyedFile legacyFile" by (simp add: legacyFile_def keyedEntry_def)
  have "''1390000000000000001'' \<in> set (map fst (activeTickets ?w))"
    and "''1390000000000000099'' \<in> set (map fst (activeTickets ?w))"
    by (simp_all only: sample_run_registry) simp_all
  then obtain r1 r2 where r: "map_of (activeTickets ?w) ''1390000000000000001'' = Some r1"
    "map_of (activeTickets ?w) ''1390000000000000099'' = Some r2"
    by (metis (no_types, lifting) list.set_map map_of_eq_None_iff not_Some_eq)
  from channelId_is_key[OF kf refl, of cfgDefault isoPlatform "[]" sampleEvents] r kf
  show ?thesis by simp
qed


end
